theory Spec2Isabelle
  imports Complex_Main "HOL-Library.AList"
begin

chapter \<open>The model\<close>

section \<open>JavaScript values\<close>

text \<open>
  A JavaScript string is the sequence of its UTF-16 code units, each a number below
  \<open>2\<^sup>1\<^sup>6\<close>. \<open>U\<close> gives the code units of a text of the source that is written in ASCII,
  \<open>C\<close> the code unit of one such character.
\<close>

type_synonym jsstring = "nat list"

abbreviation U :: "string \<Rightarrow> jsstring" where
  "U s \<equiv> map of_char s"

abbreviation C :: "char \<Rightarrow> nat" where
  "C c \<equiv> of_char c"

text \<open>
  The values that travel through the relay are JSON values: request bodies parsed by
  \<^verbatim>\<open>express.json()\<close>, the subscription records, the notification payload and the
  response bodies. An object is the list of its properties in enumeration order, which
  is the order \<^verbatim>\<open>JSON.stringify\<close> writes them in. \<open>JNum n\<close> is the Number with the
  integral value \<open>n\<close>; the relay computes one Number that is not integral, the average
  of \<^verbatim>\<open>getStats\<close>, which is modelled there.
\<close>

datatype json =
    JNull
  | JBool bool
  | JNum int
  | JStr jsstring
  | JArr "json list"
  | JObj "(jsstring \<times> json) list"

text \<open>A JavaScript value that may be \<^verbatim>\<open>undefined\<close> (\<open>None\<close>).\<close>

type_synonym jsvalue = "json option"

text \<open>\<^verbatim>\<open>!v\<close> is \<open>\<not> truthy v\<close>: undefined, null, false, 0 and the empty string are falsy.\<close>

fun truthy :: "jsvalue \<Rightarrow> bool" where
  "truthy None = False"
| "truthy (Some JNull) = False"
| "truthy (Some (JBool b)) = b"
| "truthy (Some (JNum n)) = (n \<noteq> 0)"
| "truthy (Some (JStr s)) = (s \<noteq> [])"
| "truthy (Some (JArr xs)) = True"
| "truthy (Some (JObj kvs)) = True"

text \<open>\<^verbatim>\<open>typeof v === 'string'\<close>.\<close>

fun typeof_string :: "jsvalue \<Rightarrow> bool" where
  "typeof_string (Some (JStr s)) = True"
| "typeof_string _ = False"

text \<open>
  Property access \<^verbatim>\<open>v.name\<close> on a parsed value, for a name that no prototype defines:
  the own property of an object, \<^verbatim>\<open>undefined\<close> on any other value.
\<close>

fun get_prop :: "json \<Rightarrow> jsstring \<Rightarrow> jsvalue" where
  "get_prop (JObj kvs) name = map_of kvs name"
| "get_prop _ name = None"

text \<open>The errors the relay's code can meet.\<close>

datatype js_error = SyntaxError | TypeError | URIError | Error

subsection \<open>Decimal and hexadecimal digits\<close>

text \<open>The digit \<open>d\<close> as a character: \<^verbatim>\<open>0\<close> to \<^verbatim>\<open>9\<close>, then \<^verbatim>\<open>a\<close> to \<^verbatim>\<open>f\<close>.\<close>

definition digit_char :: "nat \<Rightarrow> nat" where
  "digit_char d = (if d < 10 then C (CHR ''0'') + d else C (CHR ''a'') + (d - 10))"

fun digits :: "nat \<Rightarrow> jsstring" where
  "digits n = (if n < 10 then [digit_char n] else digits (n div 10) @ [digit_char (n mod 10)])"

declare digits.simps [simp del]

text \<open>Number to string, for an integral Number.\<close>

definition number_toString :: "int \<Rightarrow> jsstring" where
  "number_toString n = (if n < 0 then C (CHR ''-'') # digits (nat (- n)) else digits (nat n))"

subsection \<open>\<^verbatim>\<open>JSON.stringify\<close>\<close>

text \<open>
  The two halves of a surrogate pair. A high surrogate followed by a low one stands for
  one character beyond \<^verbatim>\<open>U+FFFF\<close>; a surrogate in any other place is a lone surrogate.
\<close>

definition is_high_surrogate :: "nat \<Rightarrow> bool" where
  "is_high_surrogate c = (0xD800 \<le> c \<and> c \<le> 0xDBFF)"

definition is_low_surrogate :: "nat \<Rightarrow> bool" where
  "is_low_surrogate c = (0xDC00 \<le> c \<and> c \<le> 0xDFFF)"

text \<open>\<^verbatim>\<open>\uXXXX\<close> with four lower-case hexadecimal digits.\<close>

definition unicode_escape :: "nat \<Rightarrow> jsstring" where
  "unicode_escape c =
     [0x5C, C (CHR ''u''), digit_char (c div 4096 mod 16), digit_char (c div 256 mod 16),
      digit_char (c div 16 mod 16), digit_char (c mod 16)]"

text \<open>
  A character of a string literal as \<^verbatim>\<open>JSON.stringify\<close> writes it: the quote and the
  backslash are escaped, the control characters have their short escape or
  \<^verbatim>\<open>\u00XX\<close>, a lone surrogate is written \<^verbatim>\<open>\uDXXX\<close>, every other character stands
  for itself.
\<close>

definition escape_char :: "nat \<Rightarrow> jsstring" where
  "escape_char c =
     (if c = 0x22 then [0x5C, 0x22]
      else if c = 0x5C then [0x5C, 0x5C]
      else if c = 0x08 then [0x5C, C (CHR ''b'')]
      else if c = 0x0C then [0x5C, C (CHR ''f'')]
      else if c = 0x0A then [0x5C, C (CHR ''n'')]
      else if c = 0x0D then [0x5C, C (CHR ''r'')]
      else if c = 0x09 then [0x5C, C (CHR ''t'')]
      else if c < 0x20 \<or> is_high_surrogate c \<or> is_low_surrogate c then unicode_escape c
      else [c])"

fun escape :: "jsstring \<Rightarrow> jsstring" where
  "escape [] = []"
| "escape [c] = escape_char c"
| "escape (c # d # cs) =
     (if is_high_surrogate c \<and> is_low_surrogate d then c # d # escape cs
      else escape_char c @ escape (d # cs))"

definition quote :: "jsstring \<Rightarrow> jsstring" where
  "quote s = 0x22 # escape s @ [0x22]"

fun commas :: "jsstring list \<Rightarrow> jsstring" where
  "commas [] = []"
| "commas [x] = x"
| "commas (x # y # ys) = x @ C (CHR '','') # commas (y # ys)"

fun JSON_stringify :: "json \<Rightarrow> jsstring" where
  "JSON_stringify JNull = U ''null''"
| "JSON_stringify (JBool b) = (if b then U ''true'' else U ''false'')"
| "JSON_stringify (JNum n) = number_toString n"
| "JSON_stringify (JStr s) = quote s"
| "JSON_stringify (JArr xs) = C (CHR ''['') # commas (map JSON_stringify xs) @ U '']''"
| "JSON_stringify (JObj kvs) =
     C (CHR ''{'') # commas (map (\<lambda>(k, v). quote k @ C (CHR '':'') # JSON_stringify v) kvs) @ U ''}''"

subsection \<open>\<^verbatim>\<open>JSON.parse\<close>\<close>

text \<open>
  \<^verbatim>\<open>JSON.parse\<close> is the runtime's; the relay applies it only to the keys
  \<^verbatim>\<open>addSubscription\<close> stored. \<open>None\<close> is its \<^verbatim>\<open>SyntaxError\<close>, and also the answer for a
  text outside the values of the model (a number with a fraction or an exponent).
  The recursion of values, array elements and object members runs on fuel;
  \<open>JSON_parse\<close> gives it more than the length of the text.
\<close>

definition is_json_ws :: "nat \<Rightarrow> bool" where
  "is_json_ws c = (c = 0x20 \<or> c = 0x09 \<or> c = 0x0A \<or> c = 0x0D)"

definition skip_ws :: "jsstring \<Rightarrow> jsstring" where
  "skip_ws s = dropWhile is_json_ws s"

definition hex_val :: "nat \<Rightarrow> nat option" where
  "hex_val c =
     (if C (CHR ''0'') \<le> c \<and> c \<le> C (CHR ''9'') then Some (c - C (CHR ''0''))
      else if C (CHR ''a'') \<le> c \<and> c \<le> C (CHR ''f'') then Some (c - C (CHR ''a'') + 10)
      else if C (CHR ''A'') \<le> c \<and> c \<le> C (CHR ''F'') then Some (c - C (CHR ''A'') + 10)
      else None)"

definition unescape :: "nat \<Rightarrow> nat option" where
  "unescape e =
     (if e = 0x22 then Some 0x22
      else if e = 0x5C then Some 0x5C
      else if e = C (CHR ''/'') then Some (C (CHR ''/''))
      else if e = C (CHR ''b'') then Some 0x08
      else if e = C (CHR ''f'') then Some 0x0C
      else if e = C (CHR ''n'') then Some 0x0A
      else if e = C (CHR ''r'') then Some 0x0D
      else if e = C (CHR ''t'') then Some 0x09
      else None)"

definition hex4 :: "nat \<Rightarrow> nat \<Rightarrow> nat \<Rightarrow> nat \<Rightarrow> nat option" where
  "hex4 a b c d =
     (case (hex_val a, hex_val b, hex_val c, hex_val d) of
        (Some w, Some x, Some y, Some z) \<Rightarrow> Some (((w * 16 + x) * 16 + y) * 16 + z)
      | _ \<Rightarrow> None)"

fun parse_chars :: "jsstring \<Rightarrow> (jsstring \<times> jsstring) option" where
  "parse_chars [] = None"
| "parse_chars (c # cs) =
     (if c = 0x22 then Some ([], cs)
      else if c = 0x5C then
        (case cs of
           [] \<Rightarrow> None
         | e # r \<Rightarrow>
             if e = C (CHR ''u'') then
               (case r of
                  a # b # c' # d # r' \<Rightarrow>
                    (case hex4 a b c' d of
                       None \<Rightarrow> None
                     | Some n \<Rightarrow>
                         (case parse_chars r' of
                            None \<Rightarrow> None
                          | Some (s, rest) \<Rightarrow> Some (n # s, rest)))
                | _ \<Rightarrow> None)
             else
               (case unescape e of
                  None \<Rightarrow> None
                | Some x \<Rightarrow>
                    (case parse_chars r of
                       None \<Rightarrow> None
                     | Some (s, rest) \<Rightarrow> Some (x # s, rest))))
      else if c < 0x20 then None
      else
        (case parse_chars cs of
           None \<Rightarrow> None
         | Some (s, rest) \<Rightarrow> Some (c # s, rest)))"

definition is_digit :: "nat \<Rightarrow> bool" where
  "is_digit c = (C (CHR ''0'') \<le> c \<and> c \<le> C (CHR ''9''))"

definition digit_val :: "nat \<Rightarrow> nat" where
  "digit_val c = c - C (CHR ''0'')"

definition nat_of_digits :: "jsstring \<Rightarrow> nat" where
  "nat_of_digits ds = foldl (\<lambda>a c. 10 * a + digit_val c) 0 ds"

definition starts_with :: "(nat \<Rightarrow> bool) \<Rightarrow> jsstring \<Rightarrow> bool" where
  "starts_with P s = (case s of [] \<Rightarrow> False | c # r \<Rightarrow> P c)"

definition parse_number :: "jsstring \<Rightarrow> (json \<times> jsstring) option" where
  "parse_number s =
     (let (neg, s1) = (if starts_with (\<lambda>c. c = C (CHR ''-'')) s then (True, tl s) else (False, s));
          ds = takeWhile is_digit s1;
          rest = dropWhile is_digit s1
      in if ds = [] then None
         else if hd ds = C (CHR ''0'') \<and> 1 < length ds then None
         else if starts_with (\<lambda>c. c = C (CHR ''.'') \<or> c = C (CHR ''e'') \<or> c = C (CHR ''E'')) rest
         then None
         else Some (JNum (if neg then - int (nat_of_digits ds) else int (nat_of_digits ds)), rest))"

definition expect :: "nat \<Rightarrow> jsstring \<Rightarrow> jsstring option" where
  "expect c s = (case skip_ws s of [] \<Rightarrow> None | x # r \<Rightarrow> if x = c then Some r else None)"

definition literal :: "jsstring \<Rightarrow> jsstring \<Rightarrow> jsstring option" where
  "literal w s = (if take (length w) s = w then Some (drop (length w) s) else None)"

definition object_of :: "(jsstring \<times> json) list \<Rightarrow> json" where
  "object_of kvs = JObj (foldl (\<lambda>obj (k, v). AList.update k v obj) [] kvs)"

fun parse_value :: "nat \<Rightarrow> jsstring \<Rightarrow> (json \<times> jsstring) option"
  and parse_elements :: "nat \<Rightarrow> jsstring \<Rightarrow> (json list \<times> jsstring) option"
  and parse_members :: "nat \<Rightarrow> jsstring \<Rightarrow> ((jsstring \<times> json) list \<times> jsstring) option"
where
  "parse_value 0 s = None"
| "parse_value (Suc n) s =
     (case skip_ws s of
        [] \<Rightarrow> None
      | c # cs \<Rightarrow>
          if c = C (CHR ''n'') then map_option (Pair JNull) (literal (U ''ull'') cs)
          else if c = C (CHR ''t'') then map_option (Pair (JBool True)) (literal (U ''rue'') cs)
          else if c = C (CHR ''f'') then map_option (Pair (JBool False)) (literal (U ''alse'') cs)
          else if c = 0x22 then map_option (\<lambda>(str, r). (JStr str, r)) (parse_chars cs)
          else if c = C (CHR ''['') then
            (case expect (C (CHR '']'')) cs of
               Some r \<Rightarrow> Some (JArr [], r)
             | None \<Rightarrow> map_option (\<lambda>(vs, r). (JArr vs, r)) (parse_elements n cs))
          else if c = C (CHR ''{'') then
            (case expect (C (CHR ''}'')) cs of
               Some r \<Rightarrow> Some (JObj [], r)
             | None \<Rightarrow> map_option (\<lambda>(kvs, r). (object_of kvs, r)) (parse_members n cs))
          else parse_number (c # cs))"
| "parse_elements 0 s = None"
| "parse_elements (Suc n) s =
     (case parse_value n s of
        None \<Rightarrow> None
      | Some (v, r) \<Rightarrow>
          (case expect (C (CHR '','')) r of
             Some r' \<Rightarrow> map_option (\<lambda>(vs, r''). (v # vs, r'')) (parse_elements n r')
           | None \<Rightarrow> map_option (Pair [v]) (expect (C (CHR '']'')) r)))"
| "parse_members 0 s = None"
| "parse_members (Suc n) s =
     (case expect 0x22 s of
        None \<Rightarrow> None
      | Some r0 \<Rightarrow>
          (case parse_chars r0 of
             None \<Rightarrow> None
           | Some (k, r1) \<Rightarrow>
               (case expect (C (CHR '':'')) r1 of
                  None \<Rightarrow> None
                | Some r2 \<Rightarrow>
                    (case parse_value n r2 of
                       None \<Rightarrow> None
                     | Some (v, r3) \<Rightarrow>
                         (case expect (C (CHR '','')) r3 of
                            Some r4 \<Rightarrow>
                              map_option (\<lambda>(kvs, r5). ((k, v) # kvs, r5)) (parse_members n r4)
                          | None \<Rightarrow> map_option (Pair [(k, v)]) (expect (C (CHR ''}'')) r3))))))"

definition JSON_parse :: "jsstring \<Rightarrow> json option" where
  "JSON_parse text =
     (case parse_value (Suc (length text)) text of
        None \<Rightarrow> None
      | Some (v, r) \<Rightarrow> if skip_ws r = [] then Some v else None)"

text \<open>
  The values a JavaScript program can hold: an object has every key once, and a Number
  of the model is a safe integer.
\<close>

fun wf_json :: "json \<Rightarrow> bool" where
  "wf_json (JNum n) = (\<bar>n\<bar> < 2 ^ 53)"
| "wf_json (JArr xs) = list_all wf_json xs"
| "wf_json (JObj kvs) = (distinct (map fst kvs) \<and> list_all (\<lambda>(k, v). wf_json v) kvs)"
| "wf_json _ = True"

section \<open>Subscription Store (src/services/storage.js)\<close>

text \<open>
  \<^verbatim>\<open>this.subscriptions = new Map()\<close>: user id to a \<^verbatim>\<open>Set\<close> of serialized subscriptions.
  A \<^verbatim>\<open>Map\<close> and a \<^verbatim>\<open>Set\<close> keep their entries in insertion order; the model keeps the
  entries of the \<^verbatim>\<open>Map\<close> as an association list and the elements of a \<^verbatim>\<open>Set\<close> as a
  list. The methods mutate the singleton; here each takes the Store and returns the
  Store it leaves. What they write to the console is not modelled.
\<close>

type_synonym StorageService = "(jsstring \<times> jsstring list) list"

definition newStorageService :: StorageService where
  "newStorageService = []"

definition Map_has :: "StorageService \<Rightarrow> jsstring \<Rightarrow> bool" where
  "Map_has m k = (map_of m k \<noteq> None)"

definition Map_get :: "StorageService \<Rightarrow> jsstring \<Rightarrow> jsstring list option" where
  "Map_get m k = map_of m k"

definition Map_set :: "StorageService \<Rightarrow> jsstring \<Rightarrow> jsstring list \<Rightarrow> StorageService" where
  "Map_set m k v = AList.update k v m"

definition Map_delete :: "StorageService \<Rightarrow> jsstring \<Rightarrow> StorageService" where
  "Map_delete m k = AList.delete k m"

definition Set_add :: "jsstring list \<Rightarrow> jsstring \<Rightarrow> jsstring list" where
  "Set_add s x = (if x \<in> set s then s else s @ [x])"

text \<open>\<^verbatim>\<open>Set.prototype.delete\<close> returns whether the element was there.\<close>

definition Set_delete :: "jsstring list \<Rightarrow> jsstring \<Rightarrow> bool \<times> jsstring list" where
  "Set_delete s x = (x \<in> set s, removeAll x s)"

text \<open>
  The representation invariant of the model: what a \<^verbatim>\<open>Map\<close> of \<^verbatim>\<open>Set\<close>s is in
  JavaScript whatever the program does (one entry per key, one copy per element).
\<close>

definition rep_ok :: "StorageService \<Rightarrow> bool" where
  "rep_ok m = (distinct (map fst m) \<and> list_all (\<lambda>(u, s). distinct s) m)"

text \<open>
  Both methods fetch the user's \<^verbatim>\<open>Set\<close> and mutate it in place: the entry of the user
  then holds the \<^verbatim>\<open>Set\<close> as changed, at the place it had in the \<^verbatim>\<open>Map\<close>. In
  \<open>addSubscription\<close> the entry is there when it is fetched, so the branch for \<open>None\<close> is
  never taken.
\<close>

definition addSubscription :: "StorageService \<Rightarrow> jsstring \<Rightarrow> json \<Rightarrow> StorageService" where
  "addSubscription m userId subscription =
     (let m1 = (if \<not> Map_has m userId then Map_set m userId [] else m) in
      case Map_get m1 userId of
        None \<Rightarrow> m1
      | Some userSubscriptions \<Rightarrow>
          let subscriptionKey = JSON_stringify subscription
          in Map_set m1 userId (Set_add userSubscriptions subscriptionKey))"

definition removeSubscription :: "StorageService \<Rightarrow> jsstring \<Rightarrow> json \<Rightarrow> StorageService" where
  "removeSubscription m userId subscription =
     (case Map_get m userId of
        None \<Rightarrow> m
      | Some userSubscriptions \<Rightarrow>
          let subscriptionKey = JSON_stringify subscription;
              (removed, userSubscriptions') = Set_delete userSubscriptions subscriptionKey;
              m1 = Map_set m userId userSubscriptions'
          in if removed then
               (if length userSubscriptions' = 0 then Map_delete m1 userId else m1)
             else m1)"

definition getUserCount :: "StorageService \<Rightarrow> nat" where
  "getUserCount m = length m"

definition getTotalSubscriptions :: "StorageService \<Rightarrow> nat" where
  "getTotalSubscriptions m = foldl (\<lambda>total userSubs. total + length userSubs) 0 (map snd m)"

text \<open>
  \<^verbatim>\<open>Array.from(userSubscriptions).map(sub => JSON.parse(sub))\<close>: a key that does not parse
  makes \<^verbatim>\<open>JSON.parse\<close> throw, and the call with it.
\<close>

definition getSubscriptions :: "StorageService \<Rightarrow> jsstring \<Rightarrow> js_error + json list" where
  "getSubscriptions m userId =
     (case Map_get m userId of
        None \<Rightarrow> Inr []
      | Some userSubscriptions \<Rightarrow>
          (case those (map JSON_parse userSubscriptions) of
             None \<Rightarrow> Inl SyntaxError
           | Some subscriptions \<Rightarrow> Inr subscriptions))"

subsection \<open>\<^verbatim>\<open>getStats\<close>\<close>

text \<open>
  A Number is a double. The counts of the Store are sizes of collections in memory, far
  below \<open>2\<^sup>5\<^sup>3\<close>, and are Numbers exactly; their quotient is not: \<^verbatim>\<open>a / b\<close> is the double
  nearest to the exact quotient, a significand of 53 bits at the binary exponent of the
  quotient, with a tie going to the even significand. \<open>Finite x\<close> is the double with the
  exact value \<open>x\<close>.
\<close>

datatype number = Finite rat | Infinity | NaN

text \<open>The number of binary digits of \<open>n\<close>.\<close>

fun bit_length :: "nat \<Rightarrow> nat" where
  "bit_length n = (if n = 0 then 0 else Suc (bit_length (n div 2)))"

declare bit_length.simps [simp del]

text \<open>\<open>N / D\<close> rounded to the nearest integer, a tie to the even one.\<close>

definition round_div :: "nat \<Rightarrow> nat \<Rightarrow> nat" where
  "round_div N D =
     (let f = N div D; r = N mod D
      in if 2 * r < D then f else if D < 2 * r then f + 1 else if even f then f else f + 1)"

text \<open>The binary exponent of \<open>a / b\<close>: the \<open>e\<close> with \<open>2\<^sup>e \<le> a / b < 2\<^sup>e\<^sup>+\<^sup>1\<close>, for positive counts.\<close>

definition quotient_exponent :: "nat \<Rightarrow> nat \<Rightarrow> int" where
  "quotient_exponent a b =
     (let d = int (bit_length a) - int (bit_length b)
      in if (if 0 \<le> d then 2 ^ nat d * b \<le> a else b \<le> 2 ^ nat (- d) * a) then d else d - 1)"

text \<open>The exact value of the double \<^verbatim>\<open>a / b\<close>, for a positive \<open>b\<close>.\<close>

definition double_quotient :: "nat \<Rightarrow> nat \<Rightarrow> rat" where
  "double_quotient a b =
     (if a = 0 then 0
      else let k = 52 - quotient_exponent a b
           in if 0 \<le> k then of_nat (round_div (2 ^ nat k * a) b) / 2 ^ nat k
              else of_nat (round_div a (2 ^ nat (- k) * b)) * 2 ^ nat (- k))"

text \<open>The quotient of two counts as a Number: finite, or what a division by zero gives.\<close>

definition divide_counts :: "nat \<Rightarrow> nat \<Rightarrow> number" where
  "divide_counts a b =
     (if b = 0 then (if a = 0 then NaN else Infinity) else Finite (double_quotient a b))"

text \<open>
  \<^verbatim>\<open>x.toFixed(2)\<close> for a Number that is not negative and below \<open>10\<^sup>2\<^sup>1\<close>: the digits of
  the integer \<open>n\<close> for which \<open>n / 100\<close> is nearest to the exact value of \<open>x\<close>, the larger
  \<open>n\<close> when two are equally near, with a point before the last two.
\<close>

definition toFixed2 :: "number \<Rightarrow> jsstring" where
  "toFixed2 x =
     (case x of
        NaN \<Rightarrow> U ''NaN''
      | Infinity \<Rightarrow> U ''Infinity''
      | Finite q \<Rightarrow>
          let n = nat \<lfloor>q * 100 + 1 / 2\<rfloor>
          in digits (n div 100) @ C (CHR ''.'') # [digit_char (n mod 100 div 10), digit_char (n mod 10)])"

record stats =
  users :: nat
  totalSubscriptions :: nat
  avgSubscriptionsPerUser :: json

definition getStats :: "StorageService \<Rightarrow> stats" where
  "getStats m =
     \<lparr> users = getUserCount m,
       totalSubscriptions = getTotalSubscriptions m,
       avgSubscriptionsPerUser =
         (if getUserCount m > 0
          then JStr (toFixed2 (divide_counts (getTotalSubscriptions m) (getUserCount m)))
          else JNum 0) \<rparr>"

subsection \<open>Sequences of Store operations\<close>

datatype store_op =
    AddSubscription jsstring json
  | RemoveSubscription jsstring json
  | GetSubscriptions jsstring
  | GetStats

fun apply_op :: "StorageService \<Rightarrow> store_op \<Rightarrow> StorageService" where
  "apply_op m (AddSubscription userId subscription) = addSubscription m userId subscription"
| "apply_op m (RemoveSubscription userId subscription) = removeSubscription m userId subscription"
| "apply_op m (GetSubscriptions userId) = m"
| "apply_op m GetStats = m"

definition run :: "StorageService \<Rightarrow> store_op list \<Rightarrow> StorageService" where
  "run m ops = foldl apply_op m ops"

text \<open>The invariant of the Store: no user entry holds an empty set.\<close>

definition no_empty_entry :: "StorageService \<Rightarrow> bool" where
  "no_empty_entry m = list_all (\<lambda>(u, s). s \<noteq> []) m"

text \<open>A stored key is sound when it parses, and the parsed record serializes to the key again.\<close>

definition key_ok :: "jsstring \<Rightarrow> bool" where
  "key_ok k = (case JSON_parse k of None \<Rightarrow> False | Some j \<Rightarrow> JSON_stringify j = k)"

definition store_ok :: "StorageService \<Rightarrow> bool" where
  "store_ok m = (rep_ok m \<and> list_all (\<lambda>(u, s). list_all key_ok s) m)"

text \<open>The serialized subscriptions a user holds, none for an unknown user.\<close>

definition user_keys :: "StorageService \<Rightarrow> jsstring \<Rightarrow> jsstring list" where
  "user_keys m userId = (case Map_get m userId of None \<Rightarrow> [] | Some s \<Rightarrow> s)"

section \<open>Notification Dispatcher (src/services/push.js)\<close>

text \<open>
  The delivery transport is the environment. \<open>webpush subscription payload options\<close> is
  what \<^verbatim>\<open>webpush.sendNotification\<close> does with one request: \<open>None\<close> when it resolves, the
  error it rejects with otherwise (\<open>statusCode\<close> is \<^verbatim>\<open>undefined\<close> on an error that is not
  an HTTP answer).
\<close>

record push_error =
  statusCode :: "int option"
  err_userId :: "jsstring option"

record push_options =
  TTL :: nat
  urgency :: jsstring

type_synonym webpush = "json \<Rightarrow> jsstring \<Rightarrow> push_options \<Rightarrow> push_error option"

text \<open>An entry of \<^verbatim>\<open>Promise.allSettled\<close>.\<close>

datatype settled = fulfilled | rejected push_error

definition sendNotification :: "webpush \<Rightarrow> json \<Rightarrow> json \<Rightarrow> jsstring \<Rightarrow> settled" where
  "sendNotification wp subscription payload userId =
     (let options = \<lparr> TTL = 3600, urgency = U ''high'' \<rparr>
      in case wp subscription (JSON_stringify payload) options of
           None \<Rightarrow> fulfilled
         | Some e \<Rightarrow> rejected (e \<lparr> err_userId := Some userId \<rparr>))"

text \<open>
  \<^verbatim>\<open>results.forEach((result, index) => ...)\<close>, each result with \<^verbatim>\<open>subscriptions[index]\<close>;
  the state is the counter \<^verbatim>\<open>sent\<close> and the Store.
\<close>

fun forEach_result ::
  "jsstring \<Rightarrow> (settled \<times> json) list \<Rightarrow> nat \<times> StorageService \<Rightarrow> nat \<times> StorageService" where
  "forEach_result userId [] (n, m) = (n, m)"
| "forEach_result userId ((result, subscription) # rest) (n, m) =
     (case result of
        fulfilled \<Rightarrow> forEach_result userId rest (n + 1, m)
      | rejected reason \<Rightarrow>
          if statusCode reason = Some 410 \<or> statusCode reason = Some 400
          then forEach_result userId rest (n, removeSubscription m userId subscription)
          else forEach_result userId rest (n, m))"

record send_result =
  sent :: nat
  total :: nat

text \<open>
  What a call of \<^verbatim>\<open>sendToUser\<close> leaves: the counts it returns, the Store, and the
  subscriptions it handed to the transport. The call is taken alone: no other request
  touches the Store while it awaits the deliveries.
\<close>

record dispatched =
  counts :: send_result
  storage :: StorageService
  deliveries :: "json list"

definition sendToUser :: "webpush \<Rightarrow> StorageService \<Rightarrow> jsstring \<Rightarrow> json \<Rightarrow> js_error + dispatched" where
  "sendToUser wp m userId payload =
     (case getSubscriptions m userId of
        Inl e \<Rightarrow> Inl e
      | Inr subscriptions \<Rightarrow>
          if length subscriptions = 0 then
            Inr \<lparr> counts = \<lparr> sent = 0, total = 0 \<rparr>, storage = m, deliveries = [] \<rparr>
          else
            let results = map (\<lambda>subscription. sendNotification wp subscription payload userId)
                            subscriptions;
                (n, m') = forEach_result userId (zip results subscriptions) (0, m)
            in Inr \<lparr> counts = \<lparr> sent = n, total = length subscriptions \<rparr>,
                     storage = m', deliveries = subscriptions \<rparr>)"

text \<open>A failure that says the subscription will never work again: 410 Gone, 400 Bad Request.\<close>

definition permanent :: "settled \<Rightarrow> bool" where
  "permanent r =
     (case r of fulfilled \<Rightarrow> False
      | rejected e \<Rightarrow> statusCode e = Some 410 \<or> statusCode e = Some 400)"

text \<open>
  \<^verbatim>\<open>encodeURIComponent\<close>: a letter, a digit or one of the marks \<^verbatim>\<open>-_.!~*'()\<close> stands for
  itself, every other character is written as the bytes of its UTF-8 encoding, each
  byte as \<^verbatim>\<open>%XX\<close>. A surrogate pair is one character; a lone surrogate makes the
  function throw a \<^verbatim>\<open>URIError\<close>.
\<close>

definition uri_unreserved :: "nat \<Rightarrow> bool" where
  "uri_unreserved c =
     ((C (CHR ''0'') \<le> c \<and> c \<le> C (CHR ''9'')) \<or> (C (CHR ''A'') \<le> c \<and> c \<le> C (CHR ''Z'')) \<or>
      (C (CHR ''a'') \<le> c \<and> c \<le> C (CHR ''z'')) \<or> c \<in> set (U ''-_.!~*()'') \<or> c = 0x27)"

definition upper_hex :: "nat \<Rightarrow> nat" where
  "upper_hex d = (if d < 10 then C (CHR ''0'') + d else C (CHR ''A'') + (d - 10))"

definition percent_byte :: "nat \<Rightarrow> jsstring" where
  "percent_byte n = [C (CHR ''%''), upper_hex (n div 16), upper_hex (n mod 16)]"

definition utf8 :: "nat \<Rightarrow> nat list" where
  "utf8 p =
     (if p < 0x80 then [p]
      else if p < 0x800 then [0xC0 + p div 64, 0x80 + p mod 64]
      else if p < 0x10000 then [0xE0 + p div 4096, 0x80 + p div 64 mod 64, 0x80 + p mod 64]
      else [0xF0 + p div 262144, 0x80 + p div 4096 mod 64, 0x80 + p div 64 mod 64,
            0x80 + p mod 64])"

definition percent_encode :: "nat \<Rightarrow> jsstring" where
  "percent_encode p = concat (map percent_byte (utf8 p))"

fun encodeURIComponent :: "jsstring \<Rightarrow> js_error + jsstring" where
  "encodeURIComponent [] = Inr []"
| "encodeURIComponent [c] =
     (if is_high_surrogate c \<or> is_low_surrogate c then Inl URIError
      else Inr (if uri_unreserved c then [c] else percent_encode c))"
| "encodeURIComponent (c # d # cs) =
     (if is_low_surrogate c then Inl URIError
      else if is_high_surrogate c then
        (if is_low_surrogate d then
           (case encodeURIComponent cs of
              Inl e \<Rightarrow> Inl e
            | Inr t \<Rightarrow>
                Inr (percent_encode (0x10000 + (c - 0xD800) * 0x400 + (d - 0xDC00)) @ t))
         else Inl URIError)
      else
        (case encodeURIComponent (d # cs) of
           Inl e \<Rightarrow> Inl e
         | Inr t \<Rightarrow> Inr ((if uri_unreserved c then [c] else percent_encode c) @ t)))"

text \<open>
  The payload of a call notification. The title starts with the telephone pictograph
  \<^verbatim>\<open>U+1F4DE\<close>, a surrogate pair. The template of the URL throws when
  \<^verbatim>\<open>encodeURIComponent\<close> does.
\<close>

definition createCallPayload :: "jsstring \<Rightarrow> jsstring \<Rightarrow> js_error + json" where
  "createCallPayload calleeNumber baseUrl =
     (case encodeURIComponent calleeNumber of
        Inl e \<Rightarrow> Inl e
      | Inr encoded \<Rightarrow>
          Inr (JObj [(U ''title'', JStr ([0xD83D, 0xDCDE] @ U '' Incoming CRM Call'')),
                     (U ''body'', JStr (U ''Tap to call '' @ calleeNumber)),
                     (U ''icon'', JStr (U ''/favicon.ico'')),
                     (U ''badge'', JStr (U ''/favicon.ico'')),
                     (U ''tag'', JStr (U ''crm-call'')),
                     (U ''requireInteraction'', JBool True),
                     (U ''actions'', JArr [JObj [(U ''action'', JStr (U ''call'')),
                                                 (U ''title'', JStr (U ''Call Now''))]]),
                     (U ''data'', JObj [(U ''url'', JStr (baseUrl @ U ''/call?to='' @ encoded)),
                                        (U ''calleeNumber'', JStr calleeNumber)])]))"

section \<open>Request validation (src/middleware/validation.js)\<close>

text \<open>
  White space as \<^verbatim>\<open>String.prototype.trim\<close> strips it and as \<^verbatim>\<open>\s\<close> matches it: tab,
  line feed, vertical tab, form feed, carriage return, space, no-break space, the ogham
  space mark \<^verbatim>\<open>U+1680\<close>, the spaces \<^verbatim>\<open>U+2000\<close> to \<^verbatim>\<open>U+200A\<close>, the line and the paragraph
  separator \<^verbatim>\<open>U+2028\<close> and \<^verbatim>\<open>U+2029\<close>, the narrow no-break space \<^verbatim>\<open>U+202F\<close>, the
  mathematical space \<^verbatim>\<open>U+205F\<close>, the ideographic space \<^verbatim>\<open>U+3000\<close> and the byte order
  mark \<^verbatim>\<open>U+FEFF\<close>.
\<close>

definition is_space :: "nat \<Rightarrow> bool" where
  "is_space c =
     (c = 0x09 \<or> c = 0x0A \<or> c = 0x0B \<or> c = 0x0C \<or> c = 0x0D \<or> c = 0x20 \<or> c = 0xA0 \<or>
      c = 0x1680 \<or> (0x2000 \<le> c \<and> c \<le> 0x200A) \<or> c = 0x2028 \<or> c = 0x2029 \<or>
      c = 0x202F \<or> c = 0x205F \<or> c = 0x3000 \<or> c = 0xFEFF)"

definition trim :: "jsstring \<Rightarrow> jsstring" where
  "trim s = rev (dropWhile is_space (rev (dropWhile is_space s)))"

text \<open>
  The regular expressions the source writes: a character, a character class, \<open>r?\<close>,
  a class repeated \<open>{lo,hi}\<close> times, and \<open>r\<^sub>1r\<^sub>2\<close>; they have no flag, so a character is a
  code unit. \<open>matches r s\<close> lists what can be left of \<open>s\<close> after a match of \<open>r\<close> at its
  start, in the order backtracking tries (greedy first).
\<close>

datatype regex =
    Chr nat
  | Class "nat \<Rightarrow> bool"
  | Opt regex
  | Repeat nat nat "nat \<Rightarrow> bool"
  | Seq regex regex

primrec repeat_class :: "(nat \<Rightarrow> bool) \<Rightarrow> nat \<Rightarrow> nat \<Rightarrow> jsstring \<Rightarrow> jsstring list" where
  "repeat_class P lo 0 s = (if lo = 0 then [s] else [])"
| "repeat_class P lo (Suc hi) s =
     (case s of
        [] \<Rightarrow> []
      | c # r \<Rightarrow> if P c then repeat_class P (lo - 1) hi r else [])
     @ (if lo = 0 then [s] else [])"

primrec matches :: "regex \<Rightarrow> jsstring \<Rightarrow> jsstring list" where
  "matches (Chr c) s = (case s of [] \<Rightarrow> [] | x # r \<Rightarrow> if x = c then [r] else [])"
| "matches (Class P) s = (case s of [] \<Rightarrow> [] | x # r \<Rightarrow> if P x then [r] else [])"
| "matches (Opt r) s = matches r s @ [s]"
| "matches (Repeat lo hi P) s = repeat_class P lo hi s"
| "matches (Seq r1 r2) s = concat (map (matches r2) (matches r1 s))"

text \<open>\<^verbatim>\<open>/^r$/.test(s)\<close>: some match of \<open>r\<close> at the start of \<open>s\<close> leaves nothing.\<close>

definition regex_test :: "regex \<Rightarrow> jsstring \<Rightarrow> bool" where
  "regex_test r s = ([] \<in> set (matches r s))"

text \<open>\<^verbatim>\<open>/^\+?[\d\s\-\(\)]{7,20}$/\<close>\<close>

definition phoneRegex :: regex where
  "phoneRegex =
     Seq (Opt (Chr (C (CHR ''+''))))
         (Repeat 7 20 (\<lambda>c. is_digit c \<or> is_space c \<or> c = C (CHR ''-'') \<or> c = C (CHR ''('') \<or>
                            c = C (CHR '')'')))"

text \<open>The characters of a value that is a string.\<close>

fun the_string :: "jsvalue \<Rightarrow> jsstring" where
  "the_string (Some (JStr s)) = s"
| "the_string _ = []"

definition isValidPhoneNumber :: "jsvalue \<Rightarrow> bool" where
  "isValidPhoneNumber phoneNumber =
     (if \<not> truthy phoneNumber \<or> \<not> typeof_string phoneNumber then False
      else regex_test phoneRegex (trim (the_string phoneNumber)))"

text \<open>
  What the relay reads of the head of a request: the \<^verbatim>\<open>X-Webhook-Token\<close>,
  \<^verbatim>\<open>X-Forwarded-Proto\<close> and \<^verbatim>\<open>Host\<close> headers (\<open>None\<close> when the request does not carry
  them) and the protocol of the connection.
\<close>

record request_head =
  x_webhook_token :: "jsstring option"
  x_forwarded_proto :: "jsstring option"
  host :: "jsstring option"
  protocol :: jsstring

text \<open>
  A request as the middlewares of a route read it, once \<^verbatim>\<open>express.json()\<close> has passed
  it on: the head, \<^verbatim>\<open>req.body\<close> (the parsed body, an object or an array; \<^verbatim>\<open>undefined\<close>
  when the parser has stored none) and what a middleware stored in
  \<^verbatim>\<open>req.validatedData\<close>.
\<close>

record request = request_head +
  body :: jsvalue
  validatedData :: "(jsstring \<times> jsstring) option"

record response =
  status :: nat
  json_body :: json

definition error_response :: "nat \<Rightarrow> jsstring \<Rightarrow> jsstring \<Rightarrow> response" where
  "error_response code err msg =
     \<lparr> status = code, json_body = JObj [(U ''error'', JStr err), (U ''message'', JStr msg)] \<rparr>"

text \<open>
  What a middleware does with a request: it answers it, and the chain ends; it calls
  \<^verbatim>\<open>next()\<close>, with the request as it has left it; or it fails, throwing or calling
  \<^verbatim>\<open>next(err)\<close>, and Express hands the error to the error-handling middleware.
\<close>

datatype middleware = Responds response | Next request | Fails js_error

definition validateWebhookToken :: "jsstring \<Rightarrow> request \<Rightarrow> middleware" where
  "validateWebhookToken expectedToken req =
     (let token = x_webhook_token req in
      if \<not> truthy (map_option JStr token) then
        Responds (error_response 401 (U ''Unauthorized'') (U ''Missing webhook token''))
      else if token \<noteq> Some expectedToken then
        Responds (error_response 403 (U ''Forbidden'') (U ''Invalid webhook token''))
      else Next req)"

text \<open>
  \<^verbatim>\<open>const { owner_user_id, callee_number } = req.body\<close> throws a \<^verbatim>\<open>TypeError\<close> when
  \<^verbatim>\<open>req.body\<close> is \<^verbatim>\<open>undefined\<close> or \<^verbatim>\<open>null\<close>.
\<close>

definition validateCallWebhook :: "request \<Rightarrow> middleware" where
  "validateCallWebhook req =
     (case body req of
        None \<Rightarrow> Fails TypeError
      | Some req_body \<Rightarrow>
          if req_body = JNull then Fails TypeError
          else
            let owner_user_id = get_prop req_body (U ''owner_user_id'');
                callee_number = get_prop req_body (U ''callee_number'')
            in if \<not> truthy owner_user_id \<or> \<not> typeof_string owner_user_id \<or>
                  trim (the_string owner_user_id) = [] then
                 Responds (error_response 400 (U ''Bad Request'')
                             (U ''Missing or invalid owner_user_id''))
               else if \<not> truthy callee_number \<or> \<not> typeof_string callee_number then
                 Responds (error_response 400 (U ''Bad Request'')
                             (U ''Missing or invalid callee_number''))
               else if \<not> isValidPhoneNumber callee_number then
                 Responds (error_response 400 (U ''Bad Request'') (U ''Invalid phone number format''))
               else
                 Next (req \<lparr> validatedData :=
                               Some (trim (the_string owner_user_id),
                                     trim (the_string callee_number)) \<rparr>))"

section \<open>Key Manager (src/services/vapid.js)\<close>

text \<open>The variables of \<^verbatim>\<open>process.env\<close> the relay reads; \<open>None\<close> for one that is not set.\<close>

record process_env =
  env_WEBHOOK_TOKEN :: "jsstring option"
  env_VAPID_PUBLIC_KEY :: "jsstring option"
  env_VAPID_PRIVATE_KEY :: "jsstring option"

text \<open>
  The fields of the \<^verbatim>\<open>VapidService\<close> singleton, and of the \<^verbatim>\<open>web-push\<close> module it
  configures: the details \<^verbatim>\<open>setVapidDetails\<close> stored, and how many key pairs
  \<^verbatim>\<open>generateVAPIDKeys\<close> has generated in this process.
\<close>

record VapidService =
  publicKey :: "jsstring option"
  privateKey :: "jsstring option"
  adminEmail :: "jsstring option"
  vapidDetails :: "(jsstring \<times> jsstring option \<times> jsstring option) option"
  generated :: nat

definition newVapidService :: VapidService where
  "newVapidService =
     \<lparr> publicKey = None, privateKey = None, adminEmail = None, vapidDetails = None,
       generated = 0 \<rparr>"

text \<open>
  The two functions of \<^verbatim>\<open>web-push\<close> are parameters of the model.
  \<open>generateVAPIDKeys i\<close> is the pair the generator yields at its \<open>i\<close>-th call: the
  randomness of the process. \<^verbatim>\<open>setVapidDetails(subject, publicKey, privateKey)\<close> checks
  its arguments before it stores them and throws an \<^verbatim>\<open>Error\<close> on those it refuses:
  \<open>accepts subject publicKey privateKey\<close> says that it accepts them.

  \<open>initialize\<close> has assigned the fields of the singleton when \<^verbatim>\<open>setVapidDetails\<close> is
  called, and nothing catches what that throws: the result is the singleton as the call
  leaves it, together with the error when the call throws (\<open>Inl\<close>).
\<close>

type_synonym setVapidDetails = "jsstring \<Rightarrow> jsstring option \<Rightarrow> jsstring option \<Rightarrow> bool"

definition initialize ::
  "(nat \<Rightarrow> jsstring \<times> jsstring) \<Rightarrow> setVapidDetails \<Rightarrow> process_env \<Rightarrow> VapidService \<Rightarrow> jsstring \<Rightarrow>
   (js_error \<times> VapidService) + VapidService" where
  "initialize generateVAPIDKeys accepts env this email =
     (let this1 = this \<lparr> adminEmail := Some email,
                          publicKey := env_VAPID_PUBLIC_KEY env,
                          privateKey := env_VAPID_PRIVATE_KEY env \<rparr>;
          this2 =
            (if \<not> truthy (map_option JStr (publicKey this1)) \<or>
                \<not> truthy (map_option JStr (privateKey this1))
             then
               let vapidKeys = generateVAPIDKeys (generated this1)
               in this1 \<lparr> publicKey := Some (fst vapidKeys),
                           privateKey := Some (snd vapidKeys),
                           generated := generated this1 + 1 \<rparr>
             else this1);
          subject = U ''mailto:'' @ email
      in if accepts subject (publicKey this2) (privateKey this2)
         then Inr (this2 \<lparr> vapidDetails := Some (subject, publicKey this2, privateKey this2) \<rparr>)
         else Inl (Error, this2))"

definition getPublicKey :: "VapidService \<Rightarrow> jsstring option" where
  "getPublicKey this = publicKey this"

section \<open>The webhook route (src/app.js)\<close>

text \<open>\<^verbatim>\<open>process.env.WEBHOOK_TOKEN || 'default-webhook-token'\<close>\<close>

definition WEBHOOK_TOKEN :: "process_env \<Rightarrow> jsstring" where
  "WEBHOOK_TOKEN env =
     (if truthy (map_option JStr (env_WEBHOOK_TOKEN env)) then the_string (map_option JStr (env_WEBHOOK_TOKEN env))
      else U ''default-webhook-token'')"

text \<open>
  A request as it arrives: the head, and what \<^verbatim>\<open>express.json()\<close> makes of the body.
  It raises an error (\<open>Inl\<close>) on a body that is not the text of a JSON object or array,
  or that is longer than the limit. Otherwise it leaves a value in \<^verbatim>\<open>req.body\<close> (\<open>Inr\<close>):
  the object or array it has parsed; and for a request that has no JSON body to parse,
  the empty object in Express 4, \<^verbatim>\<open>undefined\<close> in Express 5.
\<close>

record incoming = request_head +
  content :: "js_error + jsvalue"

text \<open>
  \<^verbatim>\<open>app.use(express.json({ limit: '1mb' }))\<close>, the first middleware of every route: it
  calls \<^verbatim>\<open>next()\<close> with the body it leaves in \<^verbatim>\<open>req.body\<close>, or it calls \<^verbatim>\<open>next(err)\<close>.
\<close>

definition express_json :: "incoming \<Rightarrow> middleware" where
  "express_json inc =
     (case content inc of
        Inl err \<Rightarrow> Fails err
      | Inr req_body \<Rightarrow>
          Next \<lparr> x_webhook_token = x_webhook_token inc,
                 x_forwarded_proto = x_forwarded_proto inc,
                 host = host inc,
                 protocol = protocol inc,
                 body = req_body,
                 validatedData = None \<rparr>)"

text \<open>
  The error-handling middleware at the end of the application: it answers every
  request on which a middleware has failed.
\<close>

definition error_middleware :: "js_error \<Rightarrow> response" where
  "error_middleware err =
     error_response 500 (U ''Internal Server Error'') (U ''Something went wrong'')"

text \<open>
  What the route leaves: the response, the Store, and the calls of the Dispatcher
  it made (user and payload).
\<close>

record routed =
  response :: response
  store_after :: StorageService
  dispatcher_calls :: "(jsstring \<times> json) list"

text \<open>The handler behind the middlewares, with its \<^verbatim>\<open>try\<close>/\<^verbatim>\<open>catch\<close>.\<close>

definition call_handler :: "webpush \<Rightarrow> StorageService \<Rightarrow> request \<Rightarrow> routed" where
  "call_handler wp m req =
     (case validatedData req of
        None \<Rightarrow>
          \<lparr> response = error_response 500 (U ''Internal Server Error'') (U ''Failed to process webhook''),
            store_after = m, dispatcher_calls = [] \<rparr>
      | Some (userId, phoneNumber) \<Rightarrow>
          let proto = (if truthy (map_option JStr (x_forwarded_proto req))
                       then the_string (map_option JStr (x_forwarded_proto req))
                       else protocol req);
              baseUrl = proto @ U ''://'' @ (case host req of None \<Rightarrow> U ''undefined'' | Some h \<Rightarrow> h)
          in case createCallPayload phoneNumber baseUrl of
               Inl e \<Rightarrow>
                 \<lparr> response = error_response 500 (U ''Internal Server Error'')
                                (U ''Failed to process webhook''),
                   store_after = m, dispatcher_calls = [] \<rparr>
             | Inr payload \<Rightarrow>
                 (case sendToUser wp m userId payload of
                    Inl e \<Rightarrow>
                      \<lparr> response = error_response 500 (U ''Internal Server Error'')
                                     (U ''Failed to process webhook''),
                        store_after = m, dispatcher_calls = [(userId, payload)] \<rparr>
                  | Inr d \<Rightarrow>
                      \<lparr> response =
                          \<lparr> status = 200,
                            json_body = JObj [(U ''success'', JBool True),
                                              (U ''message'', JStr (U ''Push notification sent'')),
                                              (U ''userId'', JStr userId),
                                              (U ''phoneNumber'', JStr phoneNumber),
                                              (U ''sent'', JNum (int (sent (counts d)))),
                                              (U ''total'', JNum (int (total (counts d))))] \<rparr>,
                        store_after = storage d, dispatcher_calls = [(userId, payload)] \<rparr>))"

text \<open>
  \<^verbatim>\<open>app.post('/webhooks/call', webhookLimiter, validateWebhookToken(WEBHOOK_TOKEN),
  validateCallWebhook, handler)\<close>, behind \<^verbatim>\<open>express.json()\<close>. The limiter is the
  \<^verbatim>\<open>express-rate-limit\<close> middleware, which counts requests per client and minute:
  \<open>limited req\<close> says that it finds \<open>req\<close> over the limit, and then it answers 429 itself.
\<close>

definition post_webhooks_call ::
  "process_env \<Rightarrow> (request \<Rightarrow> bool) \<Rightarrow> webpush \<Rightarrow> StorageService \<Rightarrow> incoming \<Rightarrow> routed" where
  "post_webhooks_call env limited wp m inc =
     (let answered = (\<lambda>res. \<lparr> response = res, store_after = m, dispatcher_calls = [] \<rparr>)
      in case express_json inc of
           Fails err \<Rightarrow> answered (error_middleware err)
         | Responds res \<Rightarrow> answered res
         | Next req \<Rightarrow>
             if limited req then
               answered (error_response 429 (U ''Too Many Requests'')
                           (U ''Rate limit exceeded. Please try again later.''))
             else
               case validateWebhookToken (WEBHOOK_TOKEN env) req of
                 Fails err \<Rightarrow> answered (error_middleware err)
               | Responds res \<Rightarrow> answered res
               | Next req1 \<Rightarrow>
                   (case validateCallWebhook req1 of
                      Fails err \<Rightarrow> answered (error_middleware err)
                    | Responds res \<Rightarrow> answered res
                    | Next req2 \<Rightarrow> call_handler wp m req2))"

section \<open>Notions of the statements and proofs\<close>

subsection \<open>Serialized values\<close>

text \<open>What may follow a value inside a text \<^verbatim>\<open>JSON.stringify\<close> wrote.\<close>

definition follow_ok :: "jsstring \<Rightarrow> bool" where
  "follow_ok rest = (case rest of [] \<Rightarrow> True | c # r \<Rightarrow> c = C (CHR '','') \<or> c = C (CHR '']'') \<or> c = C (CHR ''}''))"

text \<open>The first character of a serialized value says which kind of value follows.\<close>

definition value_start :: "nat \<Rightarrow> bool" where
  "value_start c =
     (c = C (CHR ''n'') \<or> c = C (CHR ''t'') \<or> c = C (CHR ''f'') \<or> c = 0x22 \<or> c = C (CHR ''['') \<or>
      c = C (CHR ''{'') \<or> c = C (CHR ''-'') \<or> is_digit c)"

definition roundtrips :: "json \<Rightarrow> bool" where
  "roundtrips j =
     (\<forall>n rest. follow_ok rest \<longrightarrow> length (JSON_stringify j) \<le> n \<longrightarrow>
        parse_value n (JSON_stringify j @ rest) = Some (j, rest))"

definition member_text :: "jsstring \<times> json \<Rightarrow> jsstring" where
  "member_text = (\<lambda>(k, v). quote k @ C (CHR '':'') # JSON_stringify v)"

text \<open>What \<open>getSubscriptions\<close> returns when every key of the user is sound.\<close>

definition parsed :: "jsstring \<Rightarrow> json" where
  "parsed k = (case JSON_parse k of None \<Rightarrow> JNull | Some j \<Rightarrow> j)"

subsection \<open>Store operations\<close>

fun adds_to :: "jsstring \<Rightarrow> store_op \<Rightarrow> bool" where
  "adds_to u (AddSubscription u' s) = (u' = u)"
| "adds_to u _ = False"

text \<open>Removing a list of subscriptions of one user, one after the other.\<close>

definition remove_all :: "StorageService \<Rightarrow> jsstring \<Rightarrow> json list \<Rightarrow> StorageService" where
  "remove_all m userId subscriptions =
     foldl (\<lambda>m' subscription. removeSubscription m' userId subscription) m subscriptions"

subsection \<open>Decimal texts\<close>

text \<open>
  A decimal text with exactly two decimal places, and the value it denotes.
\<close>

definition two_decimals :: "jsstring \<Rightarrow> bool" where
  "two_decimals s =
     (let ip = takeWhile is_digit s; r = dropWhile is_digit s
      in ip \<noteq> [] \<and>
         (case r of [] \<Rightarrow> False
          | c # fp \<Rightarrow> c = C (CHR ''.'') \<and> length fp = 2 \<and> list_all is_digit fp))"

definition decimal_value :: "jsstring \<Rightarrow> rat" where
  "decimal_value s = of_nat (nat_of_digits (filter is_digit s)) / 100"

subsection \<open>The phone-number format\<close>

text \<open>
  The phone-number format in words: after trimming, an optional leading \<open>+\<close>, then 7 to
  20 characters that are digits, blanks, hyphens or parentheses. \<open>blank\<close> says which
  characters count as blanks.
\<close>

definition phone_body :: "jsstring \<Rightarrow> jsstring" where
  "phone_body s =
     (let t = trim s in case t of [] \<Rightarrow> [] | c # r \<Rightarrow> if c = C (CHR ''+'') then r else t)"

definition phone_format :: "(nat \<Rightarrow> bool) \<Rightarrow> jsstring \<Rightarrow> bool" where
  "phone_format blank s =
     (7 \<le> length (phone_body s) \<and> length (phone_body s) \<le> 20 \<and>
      list_all (\<lambda>c. is_digit c \<or> blank c \<or> c = C (CHR ''-'') \<or> c = C (CHR ''('') \<or> c = C (CHR '')''))
        (phone_body s))"

text \<open>The space character alone, as the blank of the format.\<close>

definition plain_space :: "nat \<Rightarrow> bool" where
  "plain_space c = (c = 0x20)"

subsection \<open>Configuration\<close>

text \<open>The singleton as a call of \<open>initialize\<close> leaves it, whether the call returns or throws.\<close>

definition left_by :: "(js_error \<times> VapidService) + VapidService \<Rightarrow> VapidService" where
  "left_by r = (case r of Inl (err, this) \<Rightarrow> this | Inr this \<Rightarrow> this)"

text \<open>An environment configures a key pair when both variables are set and not empty.\<close>

definition configured :: "process_env \<Rightarrow> bool" where
  "configured env =
     (truthy (map_option JStr (env_VAPID_PUBLIC_KEY env)) \<and>
      truthy (map_option JStr (env_VAPID_PRIVATE_KEY env)))"

subsection \<open>Sample data\<close>

text \<open>Sample data: a subscription record, and the same record with its keys in another order.\<close>

definition sample_subscription :: json where
  "sample_subscription =
     JObj [(U ''endpoint'', JStr (U ''https://push.example/a'')),
           (U ''keys'', JObj [(U ''p256dh'', JStr (U ''BPk'')), (U ''auth'', JStr (U ''s3c''))])]"

definition sample_reordered :: json where
  "sample_reordered =
     JObj [(U ''keys'', JObj [(U ''p256dh'', JStr (U ''BPk'')), (U ''auth'', JStr (U ''s3c''))]),
           (U ''endpoint'', JStr (U ''https://push.example/a''))]"

text \<open>
  Sample data: two more subscriptions, and a transport that finds the endpoint of the
  one gone (410), the endpoint of the other overloaded (503), and delivers to the rest.
\<close>

definition sample_gone :: json where
  "sample_gone =
     JObj [(U ''endpoint'', JStr (U ''https://push.example/gone'')),
           (U ''keys'', JObj [(U ''p256dh'', JStr (U ''BPg'')), (U ''auth'', JStr (U ''g0n''))])]"

definition sample_busy :: json where
  "sample_busy =
     JObj [(U ''endpoint'', JStr (U ''https://push.example/busy'')),
           (U ''keys'', JObj [(U ''p256dh'', JStr (U ''BPb'')), (U ''auth'', JStr (U ''bzy''))])]"

definition sample_transport :: webpush where
  "sample_transport subscription payload options =
     (if get_prop subscription (U ''endpoint'') = Some (JStr (U ''https://push.example/gone''))
      then Some \<lparr> statusCode = Some 410, err_userId = None \<rparr>
      else if get_prop subscription (U ''endpoint'') = Some (JStr (U ''https://push.example/busy''))
      then Some \<lparr> statusCode = Some 503, err_userId = None \<rparr>
      else None)"

text \<open>Sample data: a transport that delivers nothing, answering 410 Gone.\<close>

definition gone_transport :: webpush where
  "gone_transport subscription payload options = Some \<lparr> statusCode = Some 410, err_userId = None \<rparr>"

definition sample_store :: StorageService where
  "sample_store =
     run newStorageService
       [AddSubscription (U ''alice'') sample_subscription,
        AddSubscription (U ''bob'') sample_subscription,
        AddSubscription (U ''alice'') sample_gone,
        AddSubscription (U ''alice'') sample_busy]"

text \<open>
  Sample data: an environment that configures nothing, one that configures a key pair
  of the lengths \<^verbatim>\<open>web-push\<close> asks for, and one whose key pair it refuses.
\<close>

definition empty_env :: process_env where
  "empty_env =
     \<lparr> env_WEBHOOK_TOKEN = None, env_VAPID_PUBLIC_KEY = None, env_VAPID_PRIVATE_KEY = None \<rparr>"

definition keyed_env :: process_env where
  "keyed_env =
     \<lparr> env_WEBHOOK_TOKEN = Some (U ''s3cret''),
       env_VAPID_PUBLIC_KEY =
         Some (U ''BD0IGGxRi1AfW-1Dp0lQDSuBRHW8CcdVM10snaYDELOV4q75rTtxEcqf6l_TEYsh4zBzAKNaszVYMIvex0JzwPo''),
       env_VAPID_PRIVATE_KEY = Some (U ''O5qhQv76RKq4OrHAkJ9pKf1TZWuJXsL8DkfUEupiulQ'') \<rparr>"

definition short_keyed_env :: process_env where
  "short_keyed_env =
     \<lparr> env_WEBHOOK_TOKEN = Some (U ''s3cret''), env_VAPID_PUBLIC_KEY = Some (U ''BPub''),
       env_VAPID_PRIVATE_KEY = Some (U ''priv'') \<rparr>"

text \<open>
  Sample data: a key generator that yields two pairs in turn, and the checks of
  \<^verbatim>\<open>setVapidDetails\<close> as the documentation of \<^verbatim>\<open>web-push\<close> states them: a subject that
  is a \<^verbatim>\<open>mailto:\<close> or \<^verbatim>\<open>https:\<close> address, a public key of 65 bytes and a private key of
  32 bytes, both in the URL-safe base 64 without padding (87 and 43 characters).
\<close>

definition sample_keygen :: "nat \<Rightarrow> jsstring \<times> jsstring" where
  "sample_keygen i =
     (if even i
      then (U ''BPIbDvidjuXa9rps1EFlKmRyKZQehbFTe1w17ea01Rmo24fO5SUEylcyutSd2x1bhVHAEcGJGZbViqyuR_Zlhe0'',
            U ''0aWsmgFfrC73s0FnNjVRKhUR9B_jfREbJn8DnuxdT1g'')
      else (U ''BHEUMPYWTpOAPZNCi8H6uA9B4hO7GXaJMH3oYG1DfDA4MxEu4U7kacPrUv6QMi7IHdQEoAk9Vlptcc53y8gSTjs'',
            U ''arnx6499M4j0-dWG9m6Z_VQIDfLERvDlhmiwnAihbdA''))"

definition url_safe_base64 :: "jsstring \<Rightarrow> bool" where
  "url_safe_base64 s =
     list_all (\<lambda>c. (C (CHR ''0'') \<le> c \<and> c \<le> C (CHR ''9'')) \<or> (C (CHR ''A'') \<le> c \<and> c \<le> C (CHR ''Z'')) \<or>
                   (C (CHR ''a'') \<le> c \<and> c \<le> C (CHR ''z'')) \<or> c = C (CHR ''-'') \<or> c = C (CHR ''_'')) s"

definition sample_accepts :: setVapidDetails where
  "sample_accepts subject public private =
     ((take 7 subject = U ''mailto:'' \<or> take 6 subject = U ''https:'') \<and>
      (case public of None \<Rightarrow> False | Some k \<Rightarrow> length k = 87 \<and> url_safe_base64 k) \<and>
      (case private of None \<Rightarrow> False | Some k \<Rightarrow> length k = 43 \<and> url_safe_base64 k))"

text \<open>
  Sample data: a webhook request with the default token and a valid body, and a
  request without a token whose body does not parse.
\<close>

definition sample_incoming :: incoming where
  "sample_incoming =
     \<lparr> x_webhook_token = Some (U ''default-webhook-token''),
       x_forwarded_proto = None,
       host = Some (U ''crm.example''),
       protocol = U ''https'',
       content = Inr (Some (JObj [(U ''owner_user_id'', JStr (U ''alice'')),
                                  (U ''callee_number'', JStr (U ''+49 123 456789''))])) \<rparr>"

definition malformed_incoming :: incoming where
  "malformed_incoming =
     \<lparr> x_webhook_token = None,
       x_forwarded_proto = None,
       host = Some (U ''crm.example''),
       protocol = U ''https'',
       content = Inl SyntaxError \<rparr>"

definition never_limited :: "request \<Rightarrow> bool" where
  "never_limited req = False"

definition always_limited :: "request \<Rightarrow> bool" where
  "always_limited req = True"

text \<open>Sample data: a Store of forty users who hold forty-one subscriptions.\<close>

definition forty_users :: StorageService where
  "forty_users =
     (U ''u'', [U ''a'', U ''b'']) # map (\<lambda>i. (C (CHR ''u'') # digits i, [U ''a''])) [0..<39]"

text \<open>Sample data: the payload of a call notification.\<close>

definition sample_payload :: json where
  "sample_payload =
     JObj [(U ''title'', JStr ([0xD83D, 0xDCDE] @ U '' Incoming CRM Call'')),
           (U ''body'', JStr (U ''Tap to call +49 123 456789'')),
           (U ''icon'', JStr (U ''/favicon.ico'')),
           (U ''badge'', JStr (U ''/favicon.ico'')),
           (U ''tag'', JStr (U ''crm-call'')),
           (U ''requireInteraction'', JBool True),
           (U ''actions'', JArr [JObj [(U ''action'', JStr (U ''call'')),
                                       (U ''title'', JStr (U ''Call Now''))]]),
           (U ''data'', JObj [(U ''url'', JStr (U ''https://crm.example/call?to=%2B49%20123%20456789'')),
                              (U ''calleeNumber'', JStr (U ''+49 123 456789''))])]"

text \<open>Sample data: the sample request as \<^verbatim>\<open>express.json()\<close> hands it to the route.\<close>

definition sample_request :: request where
  "sample_request =
     \<lparr> x_webhook_token = Some (U ''default-webhook-token''),
       x_forwarded_proto = None,
       host = Some (U ''crm.example''),
       protocol = U ''https'',
       body = Some (JObj [(U ''owner_user_id'', JStr (U ''alice'')),
                          (U ''callee_number'', JStr (U ''+49 123 456789''))]),
       validatedData = None \<rparr>"

chapter \<open>The verification\<close>

section \<open>\<^verbatim>\<open>JSON.parse\<close> reads back what \<^verbatim>\<open>JSON.stringify\<close> wrote\<close>

lemma hex_digit_char: "d < 16 \<Longrightarrow> hex_val (digit_char d) = Some d"
  by (auto simp: digit_char_def hex_val_def)

lemma hex4_digits:
  assumes "c < 65536"
  shows "hex4 (digit_char (c div 4096 mod 16)) (digit_char (c div 256 mod 16))
           (digit_char (c div 16 mod 16)) (digit_char (c mod 16)) = Some c"
proof -
  have a: "c div 4096 mod 16 = c div 4096" using assms by simp
  have "((c div 4096 * 16 + c div 256 mod 16) * 16 + c div 16 mod 16) * 16 + c mod 16 = c"
  proof -
    have "c div 256 div 16 = c div 4096" "c div 16 div 16 = c div 256"
      by (simp_all add: div_mult2_eq [symmetric])
    then have "c div 4096 * 16 + c div 256 mod 16 = c div 256"
      "c div 256 * 16 + c div 16 mod 16 = c div 16"
      using div_mult_mod_eq [of "c div 256" 16] div_mult_mod_eq [of "c div 16" 16] by simp_all
    moreover have "c div 16 * 16 + c mod 16 = c" by simp
    ultimately show ?thesis by simp
  qed
  moreover have "hex_val (digit_char (c div 4096 mod 16)) = Some (c div 4096)"
    "hex_val (digit_char (c div 256 mod 16)) = Some (c div 256 mod 16)"
    "hex_val (digit_char (c div 16 mod 16)) = Some (c div 16 mod 16)"
    "hex_val (digit_char (c mod 16)) = Some (c mod 16)"
    using a by (simp_all add: hex_digit_char)
  ultimately show ?thesis
    by (simp add: hex4_def)
qed

lemma parse_chars_Cons_plain:
  "c \<noteq> 0x22 \<Longrightarrow> c \<noteq> 0x5C \<Longrightarrow> \<not> c < 0x20 \<Longrightarrow>
   parse_chars (c # t) =
     (case parse_chars t of None \<Rightarrow> None | Some (s, r) \<Rightarrow> Some (c # s, r))"
  by simp

lemma parse_chars_Cons_short:
  "unescape e = Some x \<Longrightarrow> e \<noteq> C (CHR ''u'') \<Longrightarrow>
   parse_chars (0x5C # e # t) =
     (case parse_chars t of None \<Rightarrow> None | Some (s, r) \<Rightarrow> Some (x # s, r))"
  by simp

lemma parse_chars_Cons_hex:
  "hex4 a b c d = Some n \<Longrightarrow>
   parse_chars (0x5C # C (CHR ''u'') # a # b # c # d # t) =
     (case parse_chars t of None \<Rightarrow> None | Some (s, r) \<Rightarrow> Some (n # s, r))"
  by simp

lemma parse_chars_escape_char:
  "parse_chars (escape_char c @ t) =
     (case parse_chars t of None \<Rightarrow> None | Some (s, r) \<Rightarrow> Some (c # s, r))"
proof -
  consider (short) "c \<in> {0x22, 0x5C, 0x08, 0x0C, 0x0A, 0x0D, 0x09}"
    | (hex) "c \<notin> {0x22, 0x5C, 0x08, 0x0C, 0x0A, 0x0D, 0x09}"
        "c < 0x20 \<or> is_high_surrogate c \<or> is_low_surrogate c"
    | (plain) "c \<noteq> 0x22" "c \<noteq> 0x5C" "\<not> c < 0x20"
        "\<not> is_high_surrogate c" "\<not> is_low_surrogate c"
    by blast
  then show ?thesis
  proof cases
    case short
    then obtain e where e: "escape_char c = [0x5C, e]" "unescape e = Some c" "e \<noteq> C (CHR ''u'')"
      by (auto simp add: escape_char_def unescape_def)
    show ?thesis
      using parse_chars_Cons_short [OF e(2) e(3)] by (simp only: e(1) append.simps)
  next
    case hex
    have lt: "c < 65536"
      using hex(2) by (auto simp: is_high_surrogate_def is_low_surrogate_def)
    have e: "escape_char c = [0x5C, C (CHR ''u''), digit_char (c div 4096 mod 16),
         digit_char (c div 256 mod 16), digit_char (c div 16 mod 16), digit_char (c mod 16)]"
      using hex by (auto simp add: escape_char_def unicode_escape_def)
    show ?thesis
      using parse_chars_Cons_hex [OF hex4_digits [OF lt]] by (simp only: e append.simps)
  next
    case plain
    then have e: "escape_char c = [c]"
      by (auto simp add: escape_char_def)
    show ?thesis
      using parse_chars_Cons_plain [OF plain(1-3)] by (simp only: e append.simps)
  qed
qed

lemma parse_chars_pair:
  assumes "is_high_surrogate c" "is_low_surrogate d"
  shows "parse_chars (c # d # t) =
     (case parse_chars t of None \<Rightarrow> None | Some (s, r) \<Rightarrow> Some (c # d # s, r))"
proof -
  have c: "c \<noteq> 0x22" "c \<noteq> 0x5C" "\<not> c < 0x20"
    using assms(1) by (auto simp: is_high_surrogate_def)
  have d: "d \<noteq> 0x22" "d \<noteq> 0x5C" "\<not> d < 0x20"
    using assms(2) by (auto simp: is_low_surrogate_def)
  show ?thesis
    by (simp only: parse_chars_Cons_plain [OF c] parse_chars_Cons_plain [OF d])
       (simp split: option.splits)
qed

lemma parse_chars_escape:
  "parse_chars (escape s @ 0x22 # rest) = Some (s, rest)"
proof (induction s rule: escape.induct)
  case 1
  show ?case by simp
next
  case (2 c)
  show ?case by (simp add: parse_chars_escape_char)
next
  case (3 c d cs)
  show ?case
  proof (cases "is_high_surrogate c \<and> is_low_surrogate d")
    case True
    then have e: "escape (c # d # cs) = c # d # escape cs"
      by simp
    show ?thesis
      using 3(1) [OF True] True by (simp add: e parse_chars_pair del: parse_chars.simps)
  next
    case False
    then have e: "escape (c # d # cs) = escape_char c @ escape (d # cs)"
      by (simp only: escape.simps if_False)
    have "parse_chars (escape (c # d # cs) @ 0x22 # rest) =
        parse_chars (escape_char c @ (escape (d # cs) @ 0x22 # rest))"
      by (simp only: e append_assoc)
    also have "\<dots> = Some (c # d # cs, rest)"
      by (simp only: parse_chars_escape_char 3(2) [OF False] option.case prod.case)
    finally show ?thesis .
  qed
qed

lemma nat_lt10: "(d::nat) < 10 \<Longrightarrow> d \<in> set [0,1,2,3,4,5,6,7,8,9]"
  by (simp; arith)

lemma digit_char_chars:
  assumes "d < 10"
  shows "is_digit (digit_char d)" "digit_val (digit_char d) = d"
    "digit_char d \<noteq> C (CHR ''-'')" "(digit_char d = C (CHR ''0'')) = (d = 0)"
  using nat_lt10 [OF assms] by (auto simp: digit_char_def is_digit_def digit_val_def)

lemmas digit_char_props = digit_char_chars [simplified]

lemma digits_all_digit: "list_all is_digit (digits n)"
proof (induction n rule: digits.induct)
  case (1 n)
  then show ?case
    by (subst digits.simps) (auto simp: digit_char_props)
qed

lemma digits_nonempty: "digits n \<noteq> []"
  by (subst digits.simps) simp

lemma nat_of_digits_snoc: "nat_of_digits (ds @ [c]) = 10 * nat_of_digits ds + digit_val c"
  by (simp add: nat_of_digits_def)

lemma nat_of_digits_digits: "nat_of_digits (digits n) = n"
proof (induction n rule: digits.induct)
  case (1 n)
  show ?case
  proof (cases "n < 10")
    case True
    then show ?thesis
      by (subst digits.simps) (simp add: nat_of_digits_def digit_char_props)
  next
    case False
    then have "nat_of_digits (digits (n div 10)) = n div 10" using 1 by simp
    with False show ?thesis
      by (subst digits.simps) (simp add: nat_of_digits_snoc digit_char_props)
  qed
qed

lemma hd_digits_zero: "hd (digits n) = C (CHR ''0'') \<Longrightarrow> n = 0"
proof (induction n rule: digits.induct)
  case (1 n)
  show ?case
  proof (cases "n < 10")
    case True
    with 1(2) show ?thesis
      by (subst (asm) digits.simps) (simp add: digit_char_props)
  next
    case False
    with 1(2) have "hd (digits (n div 10)) = C (CHR ''0'')"
      by (subst (asm) digits.simps) (simp add: digits_nonempty)
    with 1(1) False have "n div 10 = 0" by simp
    with False show ?thesis by simp
  qed
qed

lemma length_digits_zero: "length (digits 0) = 1"
  by (subst digits.simps) simp

lemma hd_digits_not_minus: "hd (digits n) \<noteq> C (CHR ''-'')"
proof -
  have "is_digit (hd (digits n))"
    using digits_all_digit [of n] digits_nonempty [of n]
    by (cases "digits n") simp_all
  then show ?thesis by (auto simp: is_digit_def)
qed

lemma takeWhile_digits:
  "follow_ok rest \<Longrightarrow> takeWhile is_digit (digits n @ rest) = digits n"
  "follow_ok rest \<Longrightarrow> dropWhile is_digit (digits n @ rest) = rest"
  using digits_all_digit [of n]
  by (auto simp: follow_ok_def list_all_iff takeWhile_append2 dropWhile_append2 is_digit_def
      split: list.splits)

lemma parse_number_toString:
  assumes "follow_ok rest"
  shows "parse_number (number_toString n @ rest) = Some (JNum n, rest)"
proof -
  have nofrac: "\<not> starts_with (\<lambda>c. c = C (CHR ''.'') \<or> c = C (CHR ''e'') \<or> c = C (CHR ''E'')) rest"
    using assms by (auto simp: follow_ok_def starts_with_def split: list.splits)
  have lead: "\<not> (hd (digits k) = C (CHR ''0'') \<and> 1 < length (digits k))" for k
    using hd_digits_zero [of k] length_digits_zero by auto
  show ?thesis
  proof (cases "n < 0")
    case True
    then show ?thesis
      using nofrac lead [of "nat (- n)"]
      by (simp add: parse_number_def number_toString_def starts_with_def Let_def
          takeWhile_digits [OF assms] digits_nonempty nat_of_digits_digits)
  next
    case False
    have "\<not> starts_with (\<lambda>c. c = C (CHR ''-'')) (digits (nat n) @ rest)"
      using hd_digits_not_minus [of "nat n"] digits_nonempty [of "nat n"]
      by (cases "digits (nat n)") (simp_all add: starts_with_def)
    then show ?thesis
      using False nofrac lead [of "nat n"]
      by (simp add: parse_number_def number_toString_def Let_def
          takeWhile_digits [OF assms] digits_nonempty nat_of_digits_digits)
  qed
qed

lemma skip_ws_Cons: "\<not> is_json_ws c \<Longrightarrow> skip_ws (c # s) = c # s"
  by (simp add: skip_ws_def)

lemma expect_Cons:
  "\<not> is_json_ws x \<Longrightarrow> expect c (x # r) = (if x = c then Some r else None)"
  by (simp add: expect_def skip_ws_Cons)

lemma number_toString_start:
  "\<exists>c cs. number_toString n = c # cs \<and> (c = C (CHR ''-'') \<or> is_digit c)"
proof (cases "n < 0")
  case True
  then show ?thesis by (simp add: number_toString_def)
next
  case False
  obtain c cs where "digits (nat n) = c # cs" "is_digit c"
    using digits_all_digit [of "nat n"] digits_nonempty [of "nat n"]
    by (cases "digits (nat n)") simp_all
  with False show ?thesis by (simp add: number_toString_def)
qed

lemma stringify_start:
  "\<exists>c cs. JSON_stringify j = c # cs \<and> value_start c"
proof (cases j)
  case JNull
  then show ?thesis by (simp add: value_start_def)
next
  case (JBool b)
  then show ?thesis by (simp add: value_start_def)
next
  case (JNum n)
  then show ?thesis
    using number_toString_start [of n] by (auto simp: value_start_def)
next
  case (JStr s)
  then show ?thesis by (simp add: value_start_def quote_def)
next
  case (JArr xs)
  then show ?thesis by (simp add: value_start_def)
next
  case (JObj kvs)
  then show ?thesis by (simp add: value_start_def)
qed

lemma value_start_not_ws: "value_start c \<Longrightarrow> \<not> is_json_ws c"
  by (auto simp: value_start_def is_json_ws_def is_digit_def)

lemma value_start_not_close: "value_start c \<Longrightarrow> c \<noteq> C (CHR '']'') \<and> c \<noteq> C (CHR ''}'')"
  by (auto simp: value_start_def is_digit_def)

lemma roundtripsD:
  "roundtrips j \<Longrightarrow> follow_ok rest \<Longrightarrow> length (JSON_stringify j) \<le> n \<Longrightarrow>
   parse_value n (JSON_stringify j @ rest) = Some (j, rest)"
  by (simp add: roundtrips_def)

lemma follow_ok_chars:
  "follow_ok []" "follow_ok (C (CHR '','') # r)" "follow_ok (C (CHR '']'') # r)" "follow_ok (C (CHR ''}'') # r)"
  by (simp_all add: follow_ok_def)

lemmas follow_ok_simps [simp] = follow_ok_chars [simplified]

lemma follow_ok_not_ws: "follow_ok (c # r) \<Longrightarrow> \<not> is_json_ws c"
  by (auto simp: follow_ok_def is_json_ws_def)

lemma roundtrips_elements:
  assumes "\<forall>x \<in> set xs. roundtrips x" and "xs \<noteq> []"
    and "length (commas (map JSON_stringify xs)) < n"
  shows "parse_elements n (commas (map JSON_stringify xs) @ C (CHR '']'') # rest) = Some (xs, rest)"
  using assms
proof (induction xs arbitrary: n)
  case Nil
  then show ?case by simp
next
  case (Cons x xs)
  obtain m where n: "n = Suc m" using Cons.prems(3) by (cases n) auto
  have rx: "roundtrips x" using Cons.prems(1) by simp
  show ?case
  proof (cases xs)
    case Nil
    have "parse_value m (JSON_stringify x @ C (CHR '']'') # rest) = Some (x, C (CHR '']'') # rest)"
      using Cons.prems(3) Nil n by (intro roundtripsD [OF rx]) simp_all
    then show ?thesis
      by (simp add: n Nil expect_Cons is_json_ws_def)
  next
    case (Cons y ys)
    let ?tail = "commas (map JSON_stringify xs) @ C (CHR '']'') # rest"
    have len: "length (JSON_stringify x) \<le> m" "length (commas (map JSON_stringify xs)) < m"
      using Cons.prems(3) Cons n by simp_all
    have "parse_value m (JSON_stringify x @ C (CHR '','') # ?tail) = Some (x, C (CHR '','') # ?tail)"
      by (intro roundtripsD [OF rx]) (simp_all add: len)
    moreover have "parse_elements m ?tail = Some (xs, rest)"
      using Cons.prems(1) Cons len by (intro Cons.IH) simp_all
    ultimately show ?thesis
      by (simp add: n Cons expect_Cons is_json_ws_def)
  qed
qed

lemma roundtrips_members:
  assumes "\<forall>kv \<in> set kvs. roundtrips (snd kv)" and "kvs \<noteq> []"
    and "length (commas (map member_text kvs)) < n"
  shows "parse_members n (commas (map member_text kvs) @ C (CHR ''}'') # rest) = Some (kvs, rest)"
  using assms
proof (induction kvs arbitrary: n)
  case Nil
  then show ?case by simp
next
  case (Cons kv kvs)
  obtain k v where kv: "kv = (k, v)" by (cases kv)
  obtain m where n: "n = Suc m" using Cons.prems(3) by (cases n) auto
  have rv: "roundtrips v" using Cons.prems(1) kv by simp
  have key: "expect (0x22) (member_text kv @ t) =
      Some (escape k @ 0x22 # C (CHR '':'') # JSON_stringify v @ t)" for t
    by (simp add: member_text_def kv quote_def expect_Cons is_json_ws_def)
  have str: "parse_chars (escape k @ 0x22 # C (CHR '':'') # JSON_stringify v @ t)
      = Some (k, C (CHR '':'') # JSON_stringify v @ t)" for t
    by (rule parse_chars_escape)
  have lenkv: "length (JSON_stringify v) < length (member_text kv)"
    by (simp add: member_text_def kv quote_def)
  show ?case
  proof (cases kvs)
    case Nil
    have "parse_value m (JSON_stringify v @ C (CHR ''}'') # rest) = Some (v, C (CHR ''}'') # rest)"
      using Cons.prems(3) Nil n lenkv by (intro roundtripsD [OF rv]) simp_all
    then show ?thesis
      using key [of "C (CHR ''}'') # rest"] str [of "C (CHR ''}'') # rest"]
      by (simp add: n Nil kv expect_Cons is_json_ws_def)
  next
    case (Cons y ys)
    let ?tail = "commas (map member_text kvs) @ C (CHR ''}'') # rest"
    have len: "length (JSON_stringify v) \<le> m" "length (commas (map member_text kvs)) < m"
      using Cons.prems(3) Cons n lenkv by simp_all
    have "parse_value m (JSON_stringify v @ C (CHR '','') # ?tail) = Some (v, C (CHR '','') # ?tail)"
      by (intro roundtripsD [OF rv]) (simp_all add: len)
    moreover have "parse_members m ?tail = Some (kvs, rest)"
      using Cons.prems(1) Cons len by (intro Cons.IH) simp_all
    ultimately show ?thesis
      using key [of "C (CHR '','') # ?tail"] str [of "C (CHR '','') # ?tail"]
      by (simp add: n Cons kv expect_Cons is_json_ws_def)
  qed
qed

lemma update_fresh: "k \<notin> fst ` set al \<Longrightarrow> AList.update k v al = al @ [(k, v)]"
  by (induction al) auto

lemma foldl_update_distinct:
  "distinct (map fst (acc @ kvs)) \<Longrightarrow>
   foldl (\<lambda>obj (k, v). AList.update k v obj) acc kvs = acc @ kvs"
proof (induction kvs arbitrary: acc)
  case Nil
  then show ?case by simp
next
  case (Cons kv kvs)
  obtain k v where kv: "kv = (k, v)" by (cases kv)
  have "k \<notin> fst ` set acc" using Cons.prems kv by auto
  then have "AList.update k v acc = acc @ [(k, v)]" by (rule update_fresh)
  moreover have "distinct (map fst ((acc @ [(k, v)]) @ kvs))" using Cons.prems kv by simp
  ultimately show ?case using Cons.IH [of "acc @ [(k, v)]"] kv by simp
qed

lemma object_of_distinct: "distinct (map fst kvs) \<Longrightarrow> object_of kvs = JObj kvs"
  using foldl_update_distinct [of "[]" kvs] by (simp add: object_of_def)

lemma commas_start:
  "xs \<noteq> [] \<Longrightarrow> \<exists>t. commas xs = hd xs @ t"
  by (cases xs rule: commas.cases) simp_all

declare parse_value.simps [simp del]

lemma parse_value_start:
  assumes "value_start c"
  shows "parse_value (Suc m) (c # cs) =
     (if c = C (CHR ''n'') then map_option (Pair JNull) (literal (U ''ull'') cs)
      else if c = C (CHR ''t'') then map_option (Pair (JBool True)) (literal (U ''rue'') cs)
      else if c = C (CHR ''f'') then map_option (Pair (JBool False)) (literal (U ''alse'') cs)
      else if c = 0x22 then map_option (\<lambda>(str, r). (JStr str, r)) (parse_chars cs)
      else if c = C (CHR ''['') then
        (case expect (C (CHR '']'')) cs of
           Some r \<Rightarrow> Some (JArr [], r)
         | None \<Rightarrow> map_option (\<lambda>(vs, r). (JArr vs, r)) (parse_elements m cs))
      else if c = C (CHR ''{'') then
        (case expect (C (CHR ''}'')) cs of
           Some r \<Rightarrow> Some (JObj [], r)
         | None \<Rightarrow> map_option (\<lambda>(kvs, r). (object_of kvs, r)) (parse_members m cs))
      else parse_number (c # cs))"
  using value_start_not_ws [OF assms] by (simp add: parse_value.simps skip_ws_Cons)

lemma roundtrips_atoms:
  "roundtrips JNull" "roundtrips (JBool b)" "roundtrips (JStr s)"
proof -
  have vs: "value_start (C (CHR ''n''))" "value_start (C (CHR ''t''))" "value_start (C (CHR ''f''))"
    "value_start (0x22)"
    by (simp_all add: value_start_def)
  show "roundtrips JNull"
    unfolding roundtrips_def
  proof (intro allI impI)
    fix n rest assume "length (JSON_stringify JNull) \<le> n"
    then obtain m where "n = Suc m" by (cases n) auto
    then show "parse_value n (JSON_stringify JNull @ rest) = Some (JNull, rest)"
      by (simp add: parse_value_start [OF vs(1) [simplified]] literal_def)
  qed
  show "roundtrips (JBool b)"
    unfolding roundtrips_def
  proof (intro allI impI)
    fix n rest assume "length (JSON_stringify (JBool b)) \<le> n"
    then obtain m where "n = Suc m" by (cases n; cases b) auto
    then show "parse_value n (JSON_stringify (JBool b) @ rest) = Some (JBool b, rest)"
      by (cases b) (simp_all add: parse_value_start [OF vs(2) [simplified]] parse_value_start [OF vs(3) [simplified]] literal_def)
  qed
  show "roundtrips (JStr s)"
    unfolding roundtrips_def
  proof (intro allI impI)
    fix n rest assume "length (JSON_stringify (JStr s)) \<le> n"
    then obtain m where "n = Suc m" by (cases n) (auto simp: quote_def)
    then show "parse_value n (JSON_stringify (JStr s) @ rest) = Some (JStr s, rest)"
      by (simp add: quote_def parse_value_start [OF vs(4) [simplified]] parse_chars_escape)
  qed
qed

lemma roundtrips_JNum: "roundtrips (JNum i)"
  unfolding roundtrips_def
proof (intro allI impI)
  fix n rest assume f: "follow_ok rest" and "length (JSON_stringify (JNum i)) \<le> n"
  obtain c cs where c: "number_toString i = c # cs" "c = C (CHR ''-'') \<or> is_digit c"
    using number_toString_start by blast
  then obtain m where n: "n = Suc m"
    using \<open>length (JSON_stringify (JNum i)) \<le> n\<close> by (cases n) auto
  have vs: "value_start c" using c(2) by (simp add: value_start_def)
  have "parse_value (Suc m) (c # cs @ rest) = parse_number (c # cs @ rest)"
    using c(2) by (subst parse_value_start [OF vs [simplified]]) (auto simp: is_digit_def)
  also have "\<dots> = Some (JNum i, rest)"
    using parse_number_toString [OF f, of i] c(1) by simp
  finally show "parse_value n (JSON_stringify (JNum i) @ rest) = Some (JNum i, rest)"
    by (simp add: n c(1))
qed

lemma expect_close_value:
  assumes "xs \<noteq> []" "\<exists>c cs. hd xs = c # cs \<and> value_start c"
  shows "expect (C (CHR '']'')) (commas xs @ t) = None" "expect (C (CHR ''}'')) (commas xs @ t) = None"
proof -
  obtain c cs where c: "hd xs = c # cs" "value_start c" using assms(2) by blast
  obtain u where "commas xs = hd xs @ u" using commas_start [OF assms(1)] by blast
  then have "commas xs @ t = c # (cs @ u @ t)" using c(1) by simp
  then show "expect (C (CHR '']'')) (commas xs @ t) = None" "expect (C (CHR ''}'')) (commas xs @ t) = None"
    using value_start_not_ws [OF c(2)] value_start_not_close [OF c(2)]
    by (simp_all add: expect_Cons)
qed

lemma roundtrips_JArr:
  assumes "\<forall>x \<in> set xs. roundtrips x"
  shows "roundtrips (JArr xs)"
  unfolding roundtrips_def
proof (intro allI impI)
  fix n rest assume len: "length (JSON_stringify (JArr xs)) \<le> n"
  then obtain m where n: "n = Suc m" by (cases n) auto
  have vs: "value_start (C (CHR ''[''))" by (simp add: value_start_def)
  show "parse_value n (JSON_stringify (JArr xs) @ rest) = Some (JArr xs, rest)"
  proof (cases "xs = []")
    case True
    then show ?thesis
      by (simp add: n parse_value_start [OF vs [simplified]] expect_Cons is_json_ws_def)
  next
    case False
    have st: "\<exists>c cs. hd (map JSON_stringify xs) = c # cs \<and> value_start c"
      using False stringify_start [of "hd xs"] by (simp add: hd_map)
    have ne: "map JSON_stringify xs \<noteq> []" using False by simp
    have "parse_elements m (commas (map JSON_stringify xs) @ C (CHR '']'') # rest) = Some (xs, rest)"
      using assms False len n by (intro roundtrips_elements) simp_all
    then show ?thesis
      by (simp add: n parse_value_start [OF vs [simplified]] expect_close_value(1) [OF ne st, simplified])
  qed
qed

lemma roundtrips_JObj:
  assumes "\<forall>kv \<in> set kvs. roundtrips (snd kv)" and "distinct (map fst kvs)"
  shows "roundtrips (JObj kvs)"
  unfolding roundtrips_def
proof (intro allI impI)
  fix n rest assume len: "length (JSON_stringify (JObj kvs)) \<le> n"
  then obtain m where n: "n = Suc m" by (cases n) auto
  have vs: "value_start (C (CHR ''{''))" by (simp add: value_start_def)
  have shape: "JSON_stringify (JObj kvs) = C (CHR ''{'') # commas (map member_text kvs) @ (U ''}'')"
    by (simp add: member_text_def)
  show "parse_value n (JSON_stringify (JObj kvs) @ rest) = Some (JObj kvs, rest)"
  proof (cases "kvs = []")
    case True
    then show ?thesis
      by (simp add: n parse_value_start [OF vs [simplified]] expect_Cons is_json_ws_def)
  next
    case False
    have st: "\<exists>c cs. hd (map member_text kvs) = c # cs \<and> value_start c"
      using False by (cases kvs) (auto simp: member_text_def quote_def value_start_def)
    have ne: "map member_text kvs \<noteq> []" using False by simp
    have "parse_members m (commas (map member_text kvs) @ C (CHR ''}'') # rest) = Some (kvs, rest)"
      using assms(1) False len n unfolding shape by (intro roundtrips_members) simp_all
    then show ?thesis
      unfolding shape
      by (simp add: n parse_value_start [OF vs [simplified]] expect_close_value(2) [OF ne st, simplified]
          object_of_distinct [OF assms(2)])
  qed
qed

lemma wf_json_roundtrips: "wf_json j \<Longrightarrow> roundtrips j"
proof (induction j)
  case (JArr xs)
  then show ?case by (intro roundtrips_JArr) (auto simp: list_all_iff)
next
  case (JObj kvs)
  then show ?case by (intro roundtrips_JObj) (auto simp: list_all_iff)
qed (simp_all add: roundtrips_atoms roundtrips_JNum)

lemma JSON_parse_stringify: "wf_json j \<Longrightarrow> JSON_parse (JSON_stringify j) = Some j"
  using roundtripsD [OF wf_json_roundtrips, of j "[]" "Suc (length (JSON_stringify j))"]
  by (simp add: JSON_parse_def skip_ws_def)

lemma stringify_inj:
  assumes "wf_json a" "wf_json b" "JSON_stringify a = JSON_stringify b"
  shows "a = b"
proof -
  have "Some a = JSON_parse (JSON_stringify a)"
    using assms(1) by (simp only: JSON_parse_stringify)
  also have "\<dots> = JSON_parse (JSON_stringify b)" by (simp only: assms(3))
  also have "\<dots> = Some b" using assms(2) by (simp only: JSON_parse_stringify)
  finally show ?thesis by (simp only: option.inject)
qed

section \<open>Subscription Store\<close>

subsection \<open>The operations in closed form\<close>

lemma addSubscription_eq:
  "addSubscription m u s = AList.update u (Set_add (user_keys m u) (JSON_stringify s)) m"
  by (cases "map_of m u")
     (simp_all add: addSubscription_def Map_has_def Map_get_def Map_set_def user_keys_def
       AList.update_conv')

lemma removeSubscription_eq:
  "removeSubscription m u s =
     (case map_of m u of
        None \<Rightarrow> m
      | Some ks \<Rightarrow>
          if JSON_stringify s \<in> set ks then
            (if removeAll (JSON_stringify s) ks = [] then AList.delete u m
             else AList.update u (removeAll (JSON_stringify s) ks) m)
          else m)"
  by (cases "map_of m u")
     (simp_all add: removeSubscription_def Map_get_def Map_set_def Map_delete_def Set_delete_def
       AList.delete_update_same AList.update_triv)

lemma Map_get_addSubscription:
  "Map_get (addSubscription m u s) u' =
     (if u' = u then Some (Set_add (user_keys m u) (JSON_stringify s)) else Map_get m u')"
  by (simp add: addSubscription_eq Map_get_def AList.update_conv')

lemma user_keys_addSubscription:
  "user_keys (addSubscription m u s) u' =
     (if u' = u then Set_add (user_keys m u) (JSON_stringify s) else user_keys m u')"
  by (simp add: user_keys_def Map_get_addSubscription)

lemma Map_get_removeSubscription_other:
  "u' \<noteq> u \<Longrightarrow> Map_get (removeSubscription m u s) u' = Map_get m u'"
  by (simp add: removeSubscription_eq Map_get_def AList.update_conv' AList.delete_conv'
      split: option.splits)

lemma user_keys_removeSubscription:
  "user_keys (removeSubscription m u s) u' =
     (if u' = u then removeAll (JSON_stringify s) (user_keys m u) else user_keys m u')"
  by (auto simp add: removeSubscription_eq user_keys_def Map_get_def AList.update_conv'
      AList.delete_conv' split: option.splits)

lemma Map_get_removeSubscription_None:
  "Map_get m u' = None \<Longrightarrow> Map_get (removeSubscription m u s) u' = None"
  by (auto simp add: removeSubscription_eq Map_get_def AList.update_conv' AList.delete_conv'
      split: option.splits)

lemma removeSubscription_absent:
  "JSON_stringify c \<notin> set (user_keys m u) \<Longrightarrow> removeSubscription m u c = m"
  by (auto simp: removeSubscription_eq user_keys_def Map_get_def split: option.splits)

subsection \<open>Invariants\<close>

lemma list_all_update:
  "list_all P al \<Longrightarrow> P (k, v) \<Longrightarrow> list_all P (AList.update k v al)"
  by (induction al) auto

lemma list_all_delete: "list_all P al \<Longrightarrow> list_all P (AList.delete k al)"
  by (simp add: AList.delete_eq list_all_iff)

lemma map_of_list_all: "list_all P al \<Longrightarrow> map_of al k = Some v \<Longrightarrow> P (k, v)"
  by (auto simp: list_all_iff dest: map_of_SomeD)

lemma no_empty_entry_add: "no_empty_entry m \<Longrightarrow> no_empty_entry (addSubscription m u s)"
  unfolding no_empty_entry_def addSubscription_eq
  by (rule list_all_update) (auto simp add: Set_add_def)

lemma no_empty_entry_remove: "no_empty_entry m \<Longrightarrow> no_empty_entry (removeSubscription m u s)"
  unfolding no_empty_entry_def removeSubscription_eq
  by (auto split: option.splits intro: list_all_update list_all_delete)

lemma no_empty_entry_apply_op: "no_empty_entry m \<Longrightarrow> no_empty_entry (apply_op m op)"
  by (cases op) (simp_all add: no_empty_entry_add no_empty_entry_remove)

lemma no_empty_entry_run: "no_empty_entry m \<Longrightarrow> no_empty_entry (run m ops)"
  unfolding run_def by (induction ops arbitrary: m) (simp_all add: no_empty_entry_apply_op)

lemma distinct_Set_add: "distinct ks \<Longrightarrow> distinct (Set_add ks k)"
  by (simp add: Set_add_def)

lemma rep_ok_add: "rep_ok m \<Longrightarrow> rep_ok (addSubscription m u s)"
  unfolding rep_ok_def addSubscription_eq
  by (auto simp: AList.distinct_update user_keys_def Map_get_def distinct_Set_add
      split: option.splits intro!: list_all_update dest: map_of_list_all)

lemma rep_ok_remove: "rep_ok m \<Longrightarrow> rep_ok (removeSubscription m u s)"
  unfolding rep_ok_def removeSubscription_eq
  by (auto simp: AList.distinct_update AList.distinct_delete distinct_removeAll
      split: option.splits intro!: list_all_update list_all_delete dest: map_of_list_all)

lemma rep_ok_apply_op: "rep_ok m \<Longrightarrow> rep_ok (apply_op m op)"
  by (cases op) (simp_all add: rep_ok_add rep_ok_remove)

lemma rep_ok_run: "rep_ok m \<Longrightarrow> rep_ok (run m ops)"
  unfolding run_def by (induction ops arbitrary: m) (simp_all add: rep_ok_apply_op)

lemma key_ok_stringify: "wf_json s \<Longrightarrow> key_ok (JSON_stringify s)"
  by (simp add: key_ok_def JSON_parse_stringify)

lemma store_ok_add: "store_ok m \<Longrightarrow> wf_json s \<Longrightarrow> store_ok (addSubscription m u s)"
  unfolding store_ok_def
proof (intro conjI)
  assume a: "rep_ok m \<and> list_all (\<lambda>(u, s). list_all key_ok s) m" and w: "wf_json s"
  show "rep_ok (addSubscription m u s)" using a by (simp add: rep_ok_add)
  have "list_all key_ok (user_keys m u)"
    using a by (auto simp: user_keys_def Map_get_def split: option.splits dest: map_of_list_all)
  then have "list_all key_ok (Set_add (user_keys m u) (JSON_stringify s))"
    using key_ok_stringify [OF w] by (simp add: Set_add_def)
  then show "list_all (\<lambda>(u, s). list_all key_ok s) (addSubscription m u s)"
    unfolding addSubscription_eq using a by (intro list_all_update) simp_all
qed

lemma store_ok_remove: "store_ok m \<Longrightarrow> store_ok (removeSubscription m u s)"
  unfolding store_ok_def
proof (intro conjI)
  assume a: "rep_ok m \<and> list_all (\<lambda>(u, s). list_all key_ok s) m"
  show "rep_ok (removeSubscription m u s)" using a by (simp add: rep_ok_remove)
  have "list_all key_ok (removeAll k ks)" if "map_of m u = Some ks" for k ks
  proof -
    have "list_all key_ok ks" using a that by (auto dest: map_of_list_all)
    then show ?thesis by (simp add: list_all_iff)
  qed
  then show "list_all (\<lambda>(u, s). list_all key_ok s) (removeSubscription m u s)"
    unfolding removeSubscription_eq using a
    by (auto split: option.splits intro!: list_all_update list_all_delete)
qed

lemma store_ok_run:
  "store_ok m \<Longrightarrow>
   list_all (\<lambda>op. case op of AddSubscription u s \<Rightarrow> wf_json s | _ \<Rightarrow> True) ops \<Longrightarrow>
   store_ok (run m ops)"
  unfolding run_def
proof (induction ops arbitrary: m)
  case Nil
  then show ?case by simp
next
  case (Cons op ops)
  have "store_ok (apply_op m op)"
    using Cons.prems by (cases op) (simp_all add: store_ok_add store_ok_remove)
  then show ?case using Cons by simp
qed

lemma store_ok_new: "store_ok newStorageService"
  by (simp add: store_ok_def rep_ok_def newStorageService_def)

subsection \<open>No entry with an empty set\<close>

lemma getSubscriptions_unknown: "Map_get m u = None \<Longrightarrow> getSubscriptions m u = Inr []"
  by (simp add: getSubscriptions_def)

lemma Map_get_apply_op_None:
  "Map_get m u = None \<Longrightarrow> \<not> adds_to u op \<Longrightarrow> Map_get (apply_op m op) u = None"
  by (cases op) (simp_all add: Map_get_addSubscription Map_get_removeSubscription_None)

lemma Map_get_run_None:
  "Map_get m u = None \<Longrightarrow> list_all (\<lambda>op. \<not> adds_to u op) ops \<Longrightarrow> Map_get (run m ops) u = None"
  unfolding run_def by (induction ops arbitrary: m) (simp_all add: Map_get_apply_op_None)

lemma length_delete_distinct:
  "distinct (map fst al) \<Longrightarrow> map_of al k = Some v \<Longrightarrow> length (AList.delete k al) + 1 = length al"
proof (induction al)
  case Nil
  then show ?case by simp
next
  case (Cons p al)
  show ?case
  proof (cases "fst p = k")
    case True
    then have "k \<notin> fst ` set al" using Cons.prems(1) by auto
    then show ?thesis using True by simp
  next
    case False
    then show ?thesis using Cons by (cases p) auto
  qed
qed

lemma remove_last_subscription:
  assumes "rep_ok m" "Map_get m u = Some [JSON_stringify s]"
  shows "removeSubscription m u s = AList.delete u m"
    and "getUserCount (removeSubscription m u s) + 1 = getUserCount m"
    and "Map_get (removeSubscription m u s) u = None"
proof -
  show eq: "removeSubscription m u s = AList.delete u m"
    using assms(2) by (simp add: removeSubscription_eq Map_get_def)
  show "getUserCount (removeSubscription m u s) + 1 = getUserCount m"
    using assms length_delete_distinct [of m u]
    by (simp add: eq getUserCount_def rep_ok_def Map_get_def)
  show "Map_get (removeSubscription m u s) u = None"
    by (simp add: eq Map_get_def AList.delete_conv')
qed

text \<open>
  C3. The Store never holds a user entry with an empty set: this holds of every state
  that a sequence of \<open>addSubscription\<close>, \<open>removeSubscription\<close>, \<open>getSubscriptions\<close> and
  \<open>getStats\<close> calls reaches from the new Store, and each such sequence preserves it
  from any state that has it. When \<open>removeSubscription\<close> deletes the one subscription a
  user still holds, the user count of \<open>getStats\<close> drops by one, and \<open>getSubscriptions\<close>
  for that user returns the empty sequence (not an error), then and after any further
  operations that do not add a subscription for that user.
\<close>

theorem store_keeps_no_empty_entry:
  "no_empty_entry (run newStorageService ops)
   \<and> (no_empty_entry m \<longrightarrow> no_empty_entry (run m ops))
   \<and> (rep_ok m \<and> Map_get m u = Some [JSON_stringify s] \<longrightarrow>
        users (getStats (removeSubscription m u s)) + 1 = users (getStats m)
        \<and> getSubscriptions (removeSubscription m u s) u = Inr []
        \<and> (list_all (\<lambda>op. \<not> adds_to u op) ops \<longrightarrow>
             getSubscriptions (run (removeSubscription m u s) ops) u = Inr []))"
proof (intro conjI impI)
  have "no_empty_entry newStorageService"
    by (simp add: no_empty_entry_def newStorageService_def)
  then show "no_empty_entry (run newStorageService ops)" by (rule no_empty_entry_run)
next
  assume "no_empty_entry m"
  then show "no_empty_entry (run m ops)" by (rule no_empty_entry_run)
next
  assume a: "rep_ok m \<and> Map_get m u = Some [JSON_stringify s]"
  then show "users (getStats (removeSubscription m u s)) + 1 = users (getStats m)"
    using remove_last_subscription(2) [of m u s] by (simp add: getStats_def)
  have none: "Map_get (removeSubscription m u s) u = None"
    using a remove_last_subscription(3) [of m u s] by simp
  then show "getSubscriptions (removeSubscription m u s) u = Inr []"
    by (rule getSubscriptions_unknown)
  assume "list_all (\<lambda>op. \<not> adds_to u op) ops"
  then show "getSubscriptions (run (removeSubscription m u s) ops) u = Inr []"
    using none by (intro getSubscriptions_unknown Map_get_run_None)
qed

theorem store_keeps_no_empty_entry_witness:
  "no_empty_entry
     (run [(U ''bob'', [JSON_stringify (JStr (U ''b1''))])]
        [AddSubscription (U ''alice'') (JStr (U ''a1'')), GetStats,
         RemoveSubscription (U ''alice'') (JStr (U ''a1'')), GetSubscriptions (U ''alice'')])
   \<and> users (getStats (removeSubscription
        [(U ''bob'', [JSON_stringify (JStr (U ''b1''))]), (U ''alice'', [JSON_stringify JNull])]
        (U ''alice'') JNull)) + 1
     = users (getStats [(U ''bob'', [JSON_stringify (JStr (U ''b1''))]), (U ''alice'', [JSON_stringify JNull])])
   \<and> getSubscriptions (run (removeSubscription
        [(U ''bob'', [JSON_stringify (JStr (U ''b1''))]), (U ''alice'', [JSON_stringify JNull])]
        (U ''alice'') JNull)
        [AddSubscription (U ''bob'') JNull, RemoveSubscription (U ''alice'') JNull, GetStats]) (U ''alice'')
     = Inr []"
  using store_keeps_no_empty_entry
    [of "[AddSubscription (U ''alice'') (JStr (U ''a1'')), GetStats,
          RemoveSubscription (U ''alice'') (JStr (U ''a1'')), GetSubscriptions (U ''alice'')]"
        "[(U ''bob'', [JSON_stringify (JStr (U ''b1''))])]" "U ''alice''" JNull]
    store_keeps_no_empty_entry
    [of "[AddSubscription (U ''bob'') JNull, RemoveSubscription (U ''alice'') JNull, GetStats]"
        "[(U ''bob'', [JSON_stringify (JStr (U ''b1''))]), (U ''alice'', [JSON_stringify JNull])]"
        "U ''alice''" JNull]
  by (simp add: no_empty_entry_def rep_ok_def Map_get_def)

subsection \<open>Stored keys and the records they stand for\<close>

lemma count_list_distinct: "distinct xs \<Longrightarrow> x \<in> set xs \<Longrightarrow> count_list xs x = 1"
  by (induction xs) (auto simp: count_list_0_iff)

lemma distinct_user_keys: "rep_ok m \<Longrightarrow> distinct (user_keys m u)"
  by (auto simp: rep_ok_def user_keys_def Map_get_def split: option.splits
      dest: map_of_list_all)

lemma key_ok_user_keys: "store_ok m \<Longrightarrow> list_all key_ok (user_keys m u)"
  by (auto simp: store_ok_def user_keys_def Map_get_def split: option.splits
      dest: map_of_list_all)

lemma those_map_parse:
  "list_all key_ok ks \<Longrightarrow> those (map JSON_parse ks) = Some (map parsed ks)"
  by (induction ks) (auto simp: key_ok_def parsed_def split: option.splits)

lemma getSubscriptions_ok:
  "store_ok m \<Longrightarrow> getSubscriptions m u = Inr (map parsed (user_keys m u))"
  using key_ok_user_keys [of m u]
  by (auto simp: getSubscriptions_def user_keys_def those_map_parse split: option.splits)

lemma stringify_parsed: "key_ok k \<Longrightarrow> JSON_stringify (parsed k) = k"
  by (auto simp: key_ok_def parsed_def split: option.splits)

lemma parsed_stringify: "wf_json s \<Longrightarrow> parsed (JSON_stringify s) = s"
  by (simp add: parsed_def JSON_parse_stringify)

lemma parsed_inj: "key_ok k \<Longrightarrow> key_ok k' \<Longrightarrow> parsed k = parsed k' \<Longrightarrow> k = k'"
  using stringify_parsed by metis

lemma count_list_map_parsed:
  "list_all key_ok ks \<Longrightarrow> key_ok k \<Longrightarrow> count_list (map parsed ks) (parsed k) = count_list ks k"
  by (induction ks) (auto dest: parsed_inj)

lemma parsed_mem_iff:
  assumes "list_all key_ok ks" "wf_json a"
  shows "a \<in> set (map parsed ks) \<longleftrightarrow> JSON_stringify a \<in> set ks"
proof
  assume "a \<in> set (map parsed ks)"
  then obtain k where k: "k \<in> set ks" "a = parsed k" by auto
  then have "key_ok k" using assms(1) by (simp add: list_all_iff)
  then have "JSON_stringify a = k" using k(2) by (simp add: stringify_parsed)
  with k(1) show "JSON_stringify a \<in> set ks" by simp
next
  assume "JSON_stringify a \<in> set ks"
  then have "parsed (JSON_stringify a) \<in> set (map parsed ks)" by (simp only: set_map imageI)
  then show "a \<in> set (map parsed ks)" using assms(2) by (simp only: parsed_stringify)
qed

subsection \<open>Idempotence\<close>

text \<open>
  C4. \<open>addSubscription\<close> is idempotent: adding the identical record a second time
  leaves the Store as the first call left it, and the user then holds exactly one copy
  of the record, as a stored key and among the records \<open>getSubscriptions\<close> returns.
\<close>

theorem addSubscription_idempotent:
  "addSubscription (addSubscription m u s) u s = addSubscription m u s
   \<and> (rep_ok m \<longrightarrow>
        count_list (user_keys (addSubscription (addSubscription m u s) u s) u) (JSON_stringify s) = 1)
   \<and> (store_ok m \<and> wf_json s \<longrightarrow>
        (\<exists>subs. getSubscriptions (addSubscription (addSubscription m u s) u s) u = Inr subs
                \<and> count_list subs s = 1))"
proof (intro conjI impI)
  show idem: "addSubscription (addSubscription m u s) u s = addSubscription m u s"
  proof -
    let ?X = "Set_add (user_keys m u) (JSON_stringify s)"
    have "addSubscription (addSubscription m u s) u s
        = AList.update u (Set_add ?X (JSON_stringify s)) (addSubscription m u s)"
      by (subst addSubscription_eq) (simp add: user_keys_addSubscription)
    also have "Set_add ?X (JSON_stringify s) = ?X" by (simp add: Set_add_def)
    also have "AList.update u ?X (addSubscription m u s) = addSubscription m u s"
      by (simp add: addSubscription_eq)
    finally show ?thesis .
  qed
  have mem: "JSON_stringify s \<in> set (user_keys (addSubscription m u s) u)"
    by (simp add: user_keys_addSubscription Set_add_def)
  {
    assume "rep_ok m"
    then have "distinct (user_keys (addSubscription m u s) u)"
      by (intro distinct_user_keys rep_ok_add)
    then show "count_list (user_keys (addSubscription (addSubscription m u s) u s) u)
        (JSON_stringify s) = 1"
      using mem by (simp add: idem count_list_distinct)
  }
  {
    assume a: "store_ok m \<and> wf_json s"
    let ?m = "addSubscription m u s"
    have ok: "store_ok ?m" using a by (simp add: store_ok_add)
    have d: "distinct (user_keys ?m u)"
      using ok by (intro distinct_user_keys) (simp add: store_ok_def)
    have "count_list (map parsed (user_keys ?m u)) (parsed (JSON_stringify s))
        = count_list (user_keys ?m u) (JSON_stringify s)"
      using a key_ok_user_keys [OF ok] by (intro count_list_map_parsed) (simp_all add: key_ok_stringify)
    then have "count_list (map parsed (user_keys ?m u)) s = 1"
      using a d mem by (simp add: parsed_stringify count_list_distinct)
    then show "\<exists>subs. getSubscriptions (addSubscription ?m u s) u = Inr subs \<and> count_list subs s = 1"
      using getSubscriptions_ok [OF ok] by (simp add: idem)
  }
qed

theorem addSubscription_idempotent_witness:
  "addSubscription
     (addSubscription [(U ''bob'', [JSON_stringify JNull])] (U ''alice'') sample_subscription)
     (U ''alice'') sample_subscription
   = [(U ''bob'', [JSON_stringify JNull]), (U ''alice'', [JSON_stringify sample_subscription])]
   \<and> count_list (user_keys
        (addSubscription
           (addSubscription [(U ''bob'', [JSON_stringify JNull])] (U ''alice'') sample_subscription)
           (U ''alice'') sample_subscription)
        (U ''alice''))
       (JSON_stringify sample_subscription) = 1
   \<and> (\<exists>subs. getSubscriptions
        (addSubscription
           (addSubscription [(U ''bob'', [JSON_stringify JNull])] (U ''alice'') sample_subscription)
           (U ''alice'') sample_subscription)
        (U ''alice'') = Inr subs \<and> count_list subs sample_subscription = 1)"
proof -
  let ?m = "[(U ''bob'', [JSON_stringify JNull])]"
  have r: "rep_ok ?m" by (simp add: rep_ok_def)
  have w: "wf_json sample_subscription" by (simp add: sample_subscription_def)
  have ok: "store_ok ?m"
    using r key_ok_stringify [of JNull] by (simp add: store_ok_def)
  have one: "addSubscription ?m (U ''alice'') sample_subscription
      = [(U ''bob'', [JSON_stringify JNull]), (U ''alice'', [JSON_stringify sample_subscription])]"
    by (simp add: addSubscription_eq user_keys_def Map_get_def Set_add_def)
  note t = addSubscription_idempotent [of ?m "U ''alice''" sample_subscription]
  from t have "addSubscription (addSubscription ?m (U ''alice'') sample_subscription) (U ''alice'')
      sample_subscription = addSubscription ?m (U ''alice'') sample_subscription"
    by (rule conjunct1)
  from this one have a: "addSubscription (addSubscription ?m (U ''alice'') sample_subscription) (U ''alice'')
      sample_subscription
      = [(U ''bob'', [JSON_stringify JNull]), (U ''alice'', [JSON_stringify sample_subscription])]"
    by (rule trans)
  from t r have b: "count_list (user_keys
      (addSubscription (addSubscription ?m (U ''alice'') sample_subscription) (U ''alice'')
         sample_subscription) (U ''alice'')) (JSON_stringify sample_subscription) = 1"
    by blast
  from t ok w have c: "\<exists>subs. getSubscriptions
      (addSubscription (addSubscription ?m (U ''alice'') sample_subscription) (U ''alice'')
         sample_subscription) (U ''alice'') = Inr subs \<and> count_list subs sample_subscription = 1"
    by blast
  from a b c show ?thesis by (intro conjI)
qed

subsection \<open>Identity of a subscription\<close>

lemma sample_wf: "wf_json sample_subscription" "wf_json sample_gone" "wf_json sample_busy"
  by (simp_all add: sample_subscription_def sample_gone_def sample_busy_def)

lemma sample_keys_differ:
  "JSON_stringify sample_gone \<noteq> JSON_stringify sample_subscription"
  "JSON_stringify sample_busy \<noteq> JSON_stringify sample_subscription"
  "JSON_stringify sample_busy \<noteq> JSON_stringify sample_gone"
proof -
  have "sample_gone \<noteq> sample_subscription" "sample_busy \<noteq> sample_subscription"
    "sample_busy \<noteq> sample_gone"
    by (simp_all add: sample_subscription_def sample_gone_def sample_busy_def)
  then show "JSON_stringify sample_gone \<noteq> JSON_stringify sample_subscription"
    "JSON_stringify sample_busy \<noteq> JSON_stringify sample_subscription"
    "JSON_stringify sample_busy \<noteq> JSON_stringify sample_gone"
    using sample_wf by (auto dest: stringify_inj)
qed

text \<open>
  C9. The Store tells subscriptions apart by their serialization. Two records that
  differ as values, as two objects do that have the same fields and values with the
  keys in another order, have different serializations. Added for one user, both are
  stored and \<open>getSubscriptions\<close> returns both, each once; \<open>removeSubscription\<close> with
  the one record deletes that key and leaves the other; and \<open>removeSubscription\<close> with
  a record whose serialization is not among the user's keys changes nothing.
\<close>

theorem store_identity_is_serialization:
  "wf_json a \<and> wf_json b \<and> a \<noteq> b \<and> store_ok m \<longrightarrow>
     JSON_stringify a \<noteq> JSON_stringify b
     \<and> JSON_stringify a \<in> set (user_keys (addSubscription (addSubscription m u a) u b) u)
     \<and> JSON_stringify b \<in> set (user_keys (addSubscription (addSubscription m u a) u b) u)
     \<and> (\<exists>subs. getSubscriptions (addSubscription (addSubscription m u a) u b) u = Inr subs
           \<and> count_list subs a = 1 \<and> count_list subs b = 1)
     \<and> user_keys (removeSubscription (addSubscription (addSubscription m u a) u b) u a) u
         = removeAll (JSON_stringify a) (user_keys (addSubscription (addSubscription m u a) u b) u)
     \<and> (\<exists>subs. getSubscriptions
             (removeSubscription (addSubscription (addSubscription m u a) u b) u a) u = Inr subs
           \<and> a \<notin> set subs \<and> b \<in> set subs)
     \<and> (JSON_stringify c \<notin> set (user_keys m u) \<longrightarrow> removeSubscription m u c = m)"
proof
  assume h: "wf_json a \<and> wf_json b \<and> a \<noteq> b \<and> store_ok m"
  define m2 where "m2 = addSubscription (addSubscription m u a) u b"
  define ks where "ks = user_keys m2 u"
  have ne: "JSON_stringify a \<noteq> JSON_stringify b"
    using h stringify_inj by blast
  have ok2: "store_ok m2" unfolding m2_def using h by (simp add: store_ok_add)
  have ka: "JSON_stringify a \<in> set ks" and kb: "JSON_stringify b \<in> set ks"
    unfolding ks_def m2_def by (simp_all add: user_keys_addSubscription Set_add_def)
  have kok: "list_all key_ok ks" unfolding ks_def using ok2 by (rule key_ok_user_keys)
  have dist: "distinct ks"
    unfolding ks_def using ok2 by (intro distinct_user_keys) (simp add: store_ok_def)
  have get: "getSubscriptions m2 u = Inr (map parsed ks)"
    unfolding ks_def using ok2 by (rule getSubscriptions_ok)
  have cnt: "count_list (map parsed ks) x = 1" if "wf_json x" "JSON_stringify x \<in> set ks" for x
  proof -
    have "count_list (map parsed ks) (parsed (JSON_stringify x)) = count_list ks (JSON_stringify x)"
      using kok that(1) by (intro count_list_map_parsed) (simp_all add: key_ok_stringify)
    then show ?thesis using that dist by (simp add: parsed_stringify count_list_distinct)
  qed
  define m3 where "m3 = removeSubscription m2 u a"
  have ok3: "store_ok m3" unfolding m3_def using ok2 by (rule store_ok_remove)
  have keys3: "user_keys m3 u = removeAll (JSON_stringify a) ks"
    unfolding m3_def ks_def by (simp add: user_keys_removeSubscription)
  have kok3: "list_all key_ok (removeAll (JSON_stringify a) ks)"
    using kok by (simp add: list_all_iff)
  have get3: "getSubscriptions m3 u = Inr (map parsed (removeAll (JSON_stringify a) ks))"
    using getSubscriptions_ok [OF ok3, of u] by (simp only: keys3)
  have a3: "a \<notin> set (map parsed (removeAll (JSON_stringify a) ks))"
    using h by (simp only: parsed_mem_iff [OF kok3]) simp
  have b3: "b \<in> set (map parsed (removeAll (JSON_stringify a) ks))"
    using h kb ne by (simp only: parsed_mem_iff [OF kok3]) simp
  have absent: "JSON_stringify c \<notin> set (user_keys m u) \<longrightarrow> removeSubscription m u c = m"
    by (simp add: removeSubscription_absent)
  show "JSON_stringify a \<noteq> JSON_stringify b
     \<and> JSON_stringify a \<in> set (user_keys (addSubscription (addSubscription m u a) u b) u)
     \<and> JSON_stringify b \<in> set (user_keys (addSubscription (addSubscription m u a) u b) u)
     \<and> (\<exists>subs. getSubscriptions (addSubscription (addSubscription m u a) u b) u = Inr subs
           \<and> count_list subs a = 1 \<and> count_list subs b = 1)
     \<and> user_keys (removeSubscription (addSubscription (addSubscription m u a) u b) u a) u
         = removeAll (JSON_stringify a) (user_keys (addSubscription (addSubscription m u a) u b) u)
     \<and> (\<exists>subs. getSubscriptions
             (removeSubscription (addSubscription (addSubscription m u a) u b) u a) u = Inr subs
           \<and> a \<notin> set subs \<and> b \<in> set subs)
     \<and> (JSON_stringify c \<notin> set (user_keys m u) \<longrightarrow> removeSubscription m u c = m)"
    unfolding m2_def [symmetric] m3_def [symmetric] ks_def [symmetric]
    using ne ka kb get cnt [of a] cnt [of b] h keys3 get3 a3 b3 absent by blast
qed

theorem store_identity_is_serialization_witness:
  "(\<forall>k. get_prop sample_subscription k = get_prop sample_reordered k)
   \<and> JSON_stringify sample_subscription \<noteq> JSON_stringify sample_reordered
   \<and> user_keys (addSubscription (addSubscription newStorageService (U ''alice'') sample_subscription)
        (U ''alice'') sample_reordered) (U ''alice'')
      = [JSON_stringify sample_subscription, JSON_stringify sample_reordered]
   \<and> getSubscriptions (addSubscription (addSubscription newStorageService (U ''alice'') sample_subscription)
        (U ''alice'') sample_reordered) (U ''alice'')
      = Inr [sample_subscription, sample_reordered]
   \<and> getSubscriptions (removeSubscription
        (addSubscription (addSubscription newStorageService (U ''alice'') sample_subscription)
           (U ''alice'') sample_reordered) (U ''alice'') sample_subscription) (U ''alice'')
      = Inr [sample_reordered]"
proof -
  let ?m2 = "addSubscription (addSubscription newStorageService (U ''alice'') sample_subscription)
        (U ''alice'') sample_reordered"
  have wf: "wf_json sample_subscription" "wf_json sample_reordered"
    by (simp_all add: sample_subscription_def sample_reordered_def)
  have diff: "sample_subscription \<noteq> sample_reordered"
    by (simp add: sample_subscription_def sample_reordered_def)
  have same: "\<forall>k. get_prop sample_subscription k = get_prop sample_reordered k"
    by (simp add: sample_subscription_def sample_reordered_def)
  note t = store_identity_is_serialization
    [of sample_subscription sample_reordered newStorageService "U ''alice''" sample_gone]
  have ne: "JSON_stringify sample_subscription \<noteq> JSON_stringify sample_reordered"
    using t wf diff store_ok_new by blast
  have keys: "user_keys ?m2 (U ''alice'')
      = [JSON_stringify sample_subscription, JSON_stringify sample_reordered]"
    using ne
    by (simp only: user_keys_addSubscription refl if_True)
       (simp add: Set_add_def user_keys_def Map_get_def newStorageService_def)
  have ok2: "store_ok ?m2" using wf store_ok_new by (simp add: store_ok_add)
  have get: "getSubscriptions ?m2 (U ''alice'') = Inr [sample_subscription, sample_reordered]"
    using getSubscriptions_ok [OF ok2, of "U ''alice''"]
    by (simp only: keys) (simp add: parsed_stringify wf)
  have ok3: "store_ok (removeSubscription ?m2 (U ''alice'') sample_subscription)"
    using ok2 by (rule store_ok_remove)
  have hyp: "wf_json sample_subscription \<and> wf_json sample_reordered
      \<and> sample_subscription \<noteq> sample_reordered \<and> store_ok newStorageService"
    using wf diff store_ok_new by simp
  from t hyp have rem:
    "user_keys (removeSubscription ?m2 (U ''alice'') sample_subscription) (U ''alice'')
      = removeAll (JSON_stringify sample_subscription) (user_keys ?m2 (U ''alice''))"
    by blast
  have keys3: "user_keys (removeSubscription ?m2 (U ''alice'') sample_subscription) (U ''alice'')
      = [JSON_stringify sample_reordered]"
    using ne by (simp only: rem keys) simp
  have get3: "getSubscriptions (removeSubscription ?m2 (U ''alice'') sample_subscription) (U ''alice'')
      = Inr [sample_reordered]"
    using getSubscriptions_ok [OF ok3, of "U ''alice''"]
    by (simp only: keys3) (simp add: parsed_stringify wf)
  from same ne keys get get3 show ?thesis by (intro conjI)
qed

section \<open>Store statistics\<close>

subsection \<open>The quotient of two counts as a double\<close>

lemma bit_length_upper: "n < 2 ^ bit_length n"
proof (induction n rule: bit_length.induct)
  case (1 n)
  show ?case
  proof (cases "n = 0")
    case True
    then show ?thesis by (simp add: bit_length.simps)
  next
    case False
    have "n div 2 < 2 ^ bit_length (n div 2)" using 1 False by simp
    then have "n < 2 * 2 ^ bit_length (n div 2)" by linarith
    then show ?thesis using False by (subst bit_length.simps) simp
  qed
qed

lemma bit_length_lower: "0 < n \<Longrightarrow> 2 ^ (bit_length n - 1) \<le> n"
proof (induction n rule: bit_length.induct)
  case (1 n)
  show ?case
  proof (cases "n div 2 = 0")
    case True
    then have "bit_length (n div 2) = 0" by (simp add: bit_length.simps)
    then show ?thesis using 1(2) by (subst bit_length.simps) simp
  next
    case False
    then have ih: "2 ^ (bit_length (n div 2) - 1) \<le> n div 2" using 1 by simp
    have pos: "0 < bit_length (n div 2)" using False by (subst bit_length.simps) simp
    then have "(2::nat) ^ bit_length (n div 2) = 2 * 2 ^ (bit_length (n div 2) - 1)"
      by (cases "bit_length (n div 2)") simp_all
    then have "2 ^ bit_length (n div 2) \<le> n" using ih by linarith
    then show ?thesis using 1(2) by (subst bit_length.simps) simp
  qed
qed

lemma round_div_close:
  assumes "0 < D"
  shows "\<bar>(of_nat (round_div N D) :: rat) - of_nat N / of_nat D\<bar> \<le> 1 / 2"
proof -
  define f where "f = N div D"
  define r where "r = N mod D"
  have N: "N = f * D + r" by (simp add: f_def r_def)
  have r: "r < D" using assms by (simp add: r_def)
  have q: "(of_nat N / of_nat D :: rat) = of_nat f + of_nat r / of_nat D"
    using assms by (simp add: N field_simps)
  have r0: "0 \<le> (of_nat r / of_nat D :: rat)" by simp
  have r1: "(of_nat r / of_nat D :: rat) < 1" using r assms by simp
  consider (down) "2 * r \<le> D" "round_div N D = f" | (up) "D \<le> 2 * r" "round_div N D = f + 1"
    unfolding round_div_def f_def [symmetric] r_def [symmetric] Let_def
    by (cases "2 * r < D"; cases "D < 2 * r"; cases "even f") simp_all
  then show ?thesis
  proof cases
    case down
    have "(of_nat (2 * r) :: rat) \<le> of_nat D" using down(1) by (simp only: of_nat_le_iff)
    then have "(of_nat r / of_nat D :: rat) \<le> 1 / 2" using assms by (simp add: field_simps)
    then show ?thesis using r0 by (simp add: down(2) q)
  next
    case up
    have "(of_nat D :: rat) \<le> of_nat (2 * r)" using up(1) by (simp only: of_nat_le_iff)
    then have "1 / 2 \<le> (of_nat r / of_nat D :: rat)" using assms by (simp add: field_simps)
    then show ?thesis using r1 by (simp add: up(2) q)
  qed
qed

lemma powi_two_pos: "0 < (2::rat) powi e"
  by (simp add: zero_less_power_int)

lemma powi_two_cases:
  "0 \<le> e \<Longrightarrow> (2::rat) powi e = 2 ^ nat e"
  "e < 0 \<Longrightarrow> (2::rat) powi e = 1 / 2 ^ nat (- e)"
  by (simp_all add: power_int_def field_simps)

lemma exponent_test:
  assumes "0 < b"
  shows "(if 0 \<le> d then 2 ^ nat d * b \<le> a else b \<le> 2 ^ nat (- d) * a)
     = ((2::rat) powi d \<le> of_nat a / of_nat b)"
proof (cases "0 \<le> d")
  case True
  have "(2 ^ nat d * b \<le> a) = ((of_nat (2 ^ nat d * b) :: rat) \<le> of_nat a)"
    by (simp only: of_nat_le_iff)
  also have "\<dots> = ((2::rat) ^ nat d \<le> of_nat a / of_nat b)"
    using assms by (simp add: field_simps)
  finally show ?thesis using True by (simp add: powi_two_cases)
next
  case False
  have "(b \<le> 2 ^ nat (- d) * a) = ((of_nat b :: rat) \<le> of_nat (2 ^ nat (- d) * a))"
    by (simp only: of_nat_le_iff)
  also have "\<dots> = (1 / (2::rat) ^ nat (- d) \<le> of_nat a / of_nat b)"
    using assms by (simp add: field_simps)
  finally show ?thesis using False by (simp add: powi_two_cases)
qed

lemma quotient_exponent_lower:
  assumes "0 < a" "0 < b"
  shows "(2::rat) powi quotient_exponent a b \<le> of_nat a / of_nat b"
proof -
  define d where "d = int (bit_length a) - int (bit_length b)"
  show ?thesis
  proof (cases "(2::rat) powi d \<le> of_nat a / of_nat b")
    case True
    then have "quotient_exponent a b = d"
      by (simp add: quotient_exponent_def d_def [symmetric] exponent_test [OF assms(2)])
    with True show ?thesis by simp
  next
    case False
    then have e: "quotient_exponent a b = d - 1"
      by (simp add: quotient_exponent_def d_def [symmetric] exponent_test [OF assms(2)])
    have la: "0 < bit_length a"
      using assms(1) by (subst bit_length.simps) simp
    have "(of_nat (2 ^ (bit_length a - 1)) :: rat) \<le> of_nat a"
      using bit_length_lower [OF assms(1)] by (simp only: of_nat_le_iff)
    then have lo: "(2::rat) powi (int (bit_length a) - 1) \<le> of_nat a"
      using la by (simp add: powi_two_cases nat_diff_distrib)
    have "(of_nat b :: rat) < of_nat (2 ^ bit_length b)"
      using bit_length_upper [of b] by (simp only: of_nat_less_iff)
    then have hi: "(of_nat b :: rat) \<le> 2 powi int (bit_length b)" by simp
    have "(2::rat) powi (d - 1) = 2 powi (int (bit_length a) - 1) / 2 powi int (bit_length b)"
      unfolding d_def by (simp add: power_int_diff)
    also have "\<dots> \<le> of_nat a / of_nat b"
      using lo hi assms(2) powi_two_pos [of "int (bit_length a) - 1"]
      by (intro frac_le) simp_all
    finally show ?thesis by (simp only: e)
  qed
qed

lemma quotient_exponent_upper:
  assumes "0 < a" "0 < b"
  shows "of_nat a / of_nat b < (2::rat) powi (quotient_exponent a b + 1)"
proof -
  define d where "d = int (bit_length a) - int (bit_length b)"
  show ?thesis
  proof (cases "(2::rat) powi d \<le> of_nat a / of_nat b")
    case True
    then have e: "quotient_exponent a b = d"
      by (simp add: quotient_exponent_def d_def [symmetric] exponent_test [OF assms(2)])
    have lb: "0 < bit_length b"
      using assms(2) by (subst bit_length.simps) simp
    have "(of_nat (2 ^ (bit_length b - 1)) :: rat) \<le> of_nat b"
      using bit_length_lower [OF assms(2)] by (simp only: of_nat_le_iff)
    then have lo: "(2::rat) powi (int (bit_length b) - 1) \<le> of_nat b"
      using lb by (simp add: powi_two_cases nat_diff_distrib)
    have "(of_nat a :: rat) < of_nat (2 ^ bit_length a)"
      using bit_length_upper [of a] by (simp only: of_nat_less_iff)
    then have hi: "(of_nat a :: rat) < 2 powi int (bit_length a)" by simp
    have "of_nat a / of_nat b < (2::rat) powi int (bit_length a) / of_nat b"
      using hi assms(2) by (simp add: divide_strict_right_mono)
    also have "\<dots> \<le> 2 powi int (bit_length a) / 2 powi (int (bit_length b) - 1)"
    proof (rule divide_left_mono [OF lo])
      show "0 \<le> (2::rat) powi int (bit_length a)" by simp
      show "0 < of_nat b * (2::rat) powi (int (bit_length b) - 1)"
        using assms(2) powi_two_pos [of "int (bit_length b) - 1"] by (intro mult_pos_pos) simp_all
    qed
    also have "\<dots> = 2 powi (d + 1)"
    proof -
      have eq: "d + 1 = int (bit_length a) - (int (bit_length b) - 1)" by (simp add: d_def)
      have "(2::rat) powi (int (bit_length a) - (int (bit_length b) - 1))
          = 2 powi int (bit_length a) / 2 powi (int (bit_length b) - 1)"
        by (rule power_int_diff) simp
      then show ?thesis by (simp only: eq)
    qed
    finally show ?thesis by (simp only: e)
  next
    case False
    then have "quotient_exponent a b = d - 1"
      by (simp add: quotient_exponent_def d_def [symmetric] exponent_test [OF assms(2)])
    with False show ?thesis by simp
  qed
qed

lemma double_quotient_shape:
  assumes "0 < a" "0 < b"
  shows "\<exists>N D. 0 < D
     \<and> (of_nat N / of_nat D :: rat)
         = of_nat a / of_nat b * 2 powi (52 - quotient_exponent a b)
     \<and> double_quotient a b
         = of_nat (round_div N D) / 2 powi (52 - quotient_exponent a b)"
proof -
  define k where "k = 52 - quotient_exponent a b"
  show ?thesis
  proof (cases "0 \<le> k")
    case True
    have "0 < b
      \<and> (of_nat (2 ^ nat k * a) / of_nat b :: rat) = of_nat a / of_nat b * 2 powi k
      \<and> double_quotient a b = of_nat (round_div (2 ^ nat k * a) b) / 2 powi k"
      using assms True
      by (simp add: double_quotient_def k_def [symmetric] Let_def powi_two_cases)
    then show ?thesis unfolding k_def by blast
  next
    case False
    have "0 < 2 ^ nat (- k) * b
      \<and> (of_nat a / of_nat (2 ^ nat (- k) * b) :: rat) = of_nat a / of_nat b * 2 powi k
      \<and> double_quotient a b = of_nat (round_div a (2 ^ nat (- k) * b)) / 2 powi k"
      using assms False
      by (simp add: double_quotient_def k_def [symmetric] Let_def powi_two_cases)
    then show ?thesis unfolding k_def by blast
  qed
qed

lemma double_quotient_nonneg: "0 \<le> double_quotient a b"
  by (simp add: double_quotient_def Let_def)

lemma double_quotient_close:
  assumes "0 < b"
  shows "\<bar>double_quotient a b - of_nat a / of_nat b\<bar> \<le> of_nat a / of_nat b / 2 ^ 53"
proof (cases "a = 0")
  case True
  then show ?thesis by (simp add: double_quotient_def)
next
  case False
  then have a: "0 < a" by simp
  define q :: rat where "q = of_nat a / of_nat b"
  define e where "e = quotient_exponent a b"
  define P :: rat where "P = 2 powi (52 - e)"
  have P: "0 < P" unfolding P_def by (rule powi_two_pos)
  obtain N D where D: "0 < D" and ND: "(of_nat N / of_nat D :: rat) = q * P"
    and x: "double_quotient a b = of_nat (round_div N D) / P"
    using double_quotient_shape [OF a assms] unfolding q_def P_def e_def by blast
  have "\<bar>(of_nat (round_div N D) :: rat) - q * P\<bar> \<le> 1 / 2"
    using round_div_close [OF D, of N] by (simp only: ND)
  then have "\<bar>(of_nat (round_div N D) :: rat) - q * P\<bar> / P \<le> 1 / 2 / P"
    using P by (intro divide_right_mono) simp_all
  moreover have "\<bar>(of_nat (round_div N D) :: rat) - q * P\<bar> / P = \<bar>of_nat (round_div N D) / P - q\<bar>"
  proof -
    have "(of_nat (round_div N D) - q * P) / P = of_nat (round_div N D) / P - q"
      using P by (simp add: diff_divide_distrib)
    moreover have "\<bar>(of_nat (round_div N D) - q * P) / P\<bar> = \<bar>of_nat (round_div N D) - q * P\<bar> / P"
      using P by (simp only: abs_divide abs_of_pos)
    ultimately show ?thesis by simp
  qed
  ultimately have close: "\<bar>double_quotient a b - q\<bar> \<le> 1 / 2 / P" by (simp only: x)
  have "1 / 2 / P = 2 powi e / 2 ^ 53"
  proof -
    have "P * 2 powi e = (2::rat) powi 52"
      unfolding P_def by (simp add: power_int_add [symmetric])
    then have "P * 2 powi e = (2::rat) ^ 52" by simp
    then show ?thesis using P by (simp add: field_simps)
  qed
  also have "\<dots> \<le> q / 2 ^ 53"
    using quotient_exponent_lower [OF a assms] unfolding q_def e_def
    by (intro divide_right_mono) simp_all
  finally have "1 / 2 / P \<le> q / 2 ^ 53" .
  with close show ?thesis unfolding q_def by linarith
qed

subsection \<open>The text of the average\<close>

lemma getTotalSubscriptions_empty: "getUserCount m = 0 \<Longrightarrow> getTotalSubscriptions m = 0"
  by (simp add: getUserCount_def getTotalSubscriptions_def)

lemma digits_head_digit: "\<exists>c cs. digits n = c # cs \<and> is_digit c"
  using digits_all_digit [of n] digits_nonempty [of n] by (cases "digits n") simp_all

lemma toFixed2_special: "toFixed2 NaN = U ''NaN''" "toFixed2 Infinity = U ''Infinity''"
  by (simp_all add: toFixed2_def)

lemma toFixed2_Finite_not_NaN:
  "toFixed2 (Finite q) \<noteq> U ''NaN''" "toFixed2 (Finite q) \<noteq> U ''Infinity''"
proof -
  obtain c cs where c: "digits (nat \<lfloor>q * 100 + 1 / 2\<rfloor> div 100) = c # cs" "is_digit c"
    using digits_head_digit by blast
  then show "toFixed2 (Finite q) \<noteq> U ''NaN''" "toFixed2 (Finite q) \<noteq> U ''Infinity''"
    by (auto simp: toFixed2_def Let_def is_digit_def)
qed

text \<open>
  C7. \<open>getStats\<close> does not divide by zero. With no users it returns \<open>users = 0\<close>,
  \<open>totalSubscriptions = 0\<close> and the number \<open>0\<close> as average. The average is otherwise the
  text of a finite quotient, taken with a positive user count; it is never the
  \<^verbatim>\<open>NaN\<close> or \<^verbatim>\<open>Infinity\<close> that a division by a zero count gives.
\<close>

theorem getStats_guards_division:
  "(getUserCount m = 0 \<longrightarrow>
      getStats m = \<lparr> users = 0, totalSubscriptions = 0, avgSubscriptionsPerUser = JNum 0 \<rparr>)
   \<and> (avgSubscriptionsPerUser (getStats m) = JNum 0 \<or>
        (\<exists>q. 0 < getUserCount m
           \<and> divide_counts (getTotalSubscriptions m) (getUserCount m) = Finite q
           \<and> avgSubscriptionsPerUser (getStats m) = JStr (toFixed2 (Finite q))))
   \<and> avgSubscriptionsPerUser (getStats m) \<noteq> JStr (toFixed2 NaN)
   \<and> avgSubscriptionsPerUser (getStats m) \<noteq> JStr (toFixed2 Infinity)"
proof (cases "getUserCount m = 0")
  case True
  then show ?thesis
    by (simp add: getStats_def getTotalSubscriptions_empty)
next
  case False
  then have "divide_counts (getTotalSubscriptions m) (getUserCount m)
      = Finite (double_quotient (getTotalSubscriptions m) (getUserCount m))"
    by (simp add: divide_counts_def)
  with False show ?thesis
    using toFixed2_Finite_not_NaN by (simp add: getStats_def toFixed2_special)
qed

lemma round_hundredths:
  assumes "0 < b"
  shows "nat \<lfloor>(of_nat a / of_nat b :: rat) * 100 + 1 / 2\<rfloor> = (200 * a + b) div (2 * b)"
proof -
  have "(of_nat a / of_nat b :: rat) * 100 + 1 / 2 = of_nat (200 * a + b) / of_nat (2 * b)"
    using assms by (simp add: field_simps)
  then have "\<lfloor>(of_nat a / of_nat b :: rat) * 100 + 1 / 2\<rfloor> = int ((200 * a + b) div (2 * b))"
    by (simp only: floor_divide_of_nat_eq)
  then show ?thesis by simp
qed

text \<open>The text of a quotient below \<open>2\<^sup>5\<^sup>3\<close>, computed on the significand.\<close>

lemma toFixed2_counts:
  assumes "0 < a" "0 < b" "quotient_exponent a b \<le> 52"
  shows "toFixed2 (divide_counts a b) =
     (let k = nat (52 - quotient_exponent a b);
          n = (200 * round_div (2 ^ k * a) b + 2 ^ k) div (2 * 2 ^ k)
      in digits (n div 100) @ C (CHR ''.'') # [digit_char (n mod 100 div 10), digit_char (n mod 10)])"
proof -
  define k where "k = nat (52 - quotient_exponent a b)"
  define M where "M = round_div (2 ^ k * a) b"
  have "double_quotient a b = of_nat M / of_nat (2 ^ k)"
    using assms by (simp add: double_quotient_def Let_def k_def M_def)
  then have "divide_counts a b = Finite (of_nat M / of_nat (2 ^ k))"
    using assms by (simp add: divide_counts_def)
  moreover have "nat \<lfloor>(of_nat M / of_nat (2 ^ k) :: rat) * 100 + 1 / 2\<rfloor>
      = (200 * M + 2 ^ k) div (2 * 2 ^ k)"
    by (rule round_hundredths) simp
  ultimately show ?thesis
    unfolding k_def [symmetric] M_def [symmetric] Let_def
    by (simp only: toFixed2_def number.case Let_def)
qed

text \<open>
  The text rounds the double, not the exact quotient: \<^verbatim>\<open>41 / 40\<close> is a double below
  \<open>1.025\<close> and \<^verbatim>\<open>201 / 200\<close> one below \<open>1.005\<close>, while \<^verbatim>\<open>5 / 8\<close> is exact and goes up.
\<close>

lemma toFixed2_examples:
  "toFixed2 (divide_counts 3 2) = U ''1.50''"
  "toFixed2 (divide_counts 41 40) = U ''1.02''"
  "toFixed2 (divide_counts 201 200) = U ''1.00''"
  "toFixed2 (divide_counts 5 8) = U ''0.63''"
  "toFixed2 (divide_counts 2 3) = U ''0.67''"
proof -
  have e: "quotient_exponent 3 2 = 0" "quotient_exponent 41 40 = 0" "quotient_exponent 201 200 = 0"
    "quotient_exponent 5 8 = - 1" "quotient_exponent 2 3 = - 1"
    by (simp_all add: quotient_exponent_def bit_length.simps)
  show "toFixed2 (divide_counts 3 2) = U ''1.50''"
    "toFixed2 (divide_counts 41 40) = U ''1.02''"
    "toFixed2 (divide_counts 201 200) = U ''1.00''"
    "toFixed2 (divide_counts 5 8) = U ''0.63''"
    "toFixed2 (divide_counts 2 3) = U ''0.67''"
    by (simp_all add: toFixed2_counts e round_div_def Let_def digits.simps digit_char_def)
qed

theorem getStats_guards_division_witness:
  "getStats newStorageService
     = \<lparr> users = 0, totalSubscriptions = 0, avgSubscriptionsPerUser = JNum 0 \<rparr>
   \<and> avgSubscriptionsPerUser (getStats [(U ''alice'', [U ''k1'', U ''k2'']), (U ''bob'', [U ''k3''])])
       = JStr (U ''1.50'')"
proof -
  let ?m = "[(U ''alice'', [U ''k1'', U ''k2'']), (U ''bob'', [U ''k3''])]"
  have "getStats newStorageService
      = \<lparr> users = 0, totalSubscriptions = 0, avgSubscriptionsPerUser = JNum 0 \<rparr>"
    using getStats_guards_division [of newStorageService]
    by (simp add: getUserCount_def newStorageService_def)
  moreover have "quotient_exponent 3 2 = 0"
    by (simp add: quotient_exponent_def bit_length.simps)
  then have fx: "toFixed2 (divide_counts 3 2) = U ''1.50''"
    by (simp add: toFixed2_counts round_div_def Let_def digits.simps digit_char_def)
  have cnt: "getUserCount ?m = 2" "getTotalSubscriptions ?m = 3"
    by (simp_all add: getUserCount_def getTotalSubscriptions_def)
  have "avgSubscriptionsPerUser (getStats ?m) = JStr (U ''1.50'')"
    by (simp only: getStats_def cnt) (simp add: fx)
  ultimately show ?thesis by (rule conjI)
qed

lemma dot_not_digit: "\<not> is_digit (C (CHR ''.''))"
  by (simp add: is_digit_def)

lemma two_decimals_shape:
  assumes "d1 < 10" "d2 < 10"
  shows "two_decimals (digits k @ C (CHR ''.'') # [digit_char d1, digit_char d2])"
proof -
  have "takeWhile is_digit (digits k @ C (CHR ''.'') # [digit_char d1, digit_char d2]) = digits k"
    "dropWhile is_digit (digits k @ C (CHR ''.'') # [digit_char d1, digit_char d2])
       = C (CHR ''.'') # [digit_char d1, digit_char d2]"
    using digits_all_digit [of k] dot_not_digit
    by (simp_all add: list_all_iff takeWhile_append2 dropWhile_append2)
  then show ?thesis
    using assms by (simp add: two_decimals_def digits_nonempty digit_char_props)
qed

lemma decimal_value_shape:
  assumes "d1 < 10" "d2 < 10"
  shows "decimal_value (digits k @ C (CHR ''.'') # [digit_char d1, digit_char d2])
     = of_nat (100 * k + 10 * d1 + d2) / 100"
proof -
  have "filter is_digit (digits k @ C (CHR ''.'') # [digit_char d1, digit_char d2])
      = (digits k @ [digit_char d1]) @ [digit_char d2]"
    using digits_all_digit [of k] assms dot_not_digit
    by (simp add: list_all_iff digit_char_props)
  then show ?thesis
    using assms
    by (simp only: decimal_value_def nat_of_digits_snoc nat_of_digits_digits digit_char_props)
       (simp add: algebra_simps)
qed

lemma hundredths_split: "100 * (n div 100) + 10 * (n mod 100 div 10) + n mod 10 = (n::nat)"
proof -
  have a: "n mod 100 mod 10 = n mod 10" by (simp add: mod_mod_cancel)
  have b: "10 * (n mod 100 div 10) + n mod 100 mod 10 = n mod 100" by (rule mult_div_mod_eq)
  have c: "100 * (n div 100) + n mod 100 = n" by (rule mult_div_mod_eq)
  from a b c show ?thesis by linarith
qed

lemma round_close:
  assumes "0 \<le> (q::rat)"
  shows "\<bar>of_nat (nat \<lfloor>q * 100 + 1 / 2\<rfloor>) / 100 - q\<bar> \<le> 1 / 200"
proof -
  define z where "z = \<lfloor>q * 100 + 1 / 2\<rfloor>"
  have nonneg: "0 \<le> z" using assms by (simp add: z_def)
  have lo: "of_int z \<le> q * 100 + 1 / 2" unfolding z_def by (rule of_int_floor_le)
  have "q * 100 + 1 / 2 < of_int (z + 1)"
    unfolding z_def using floor_correct [of "q * 100 + 1 / 2"] by (rule conjunct2)
  then have hi: "q * 100 + 1 / 2 < of_int z + 1" by simp
  have eq: "(of_nat (nat z) :: rat) = of_int z" using nonneg by simp
  have "of_int z / 100 - q \<le> 1 / 200" using lo by linarith
  moreover have "- (of_int z / 100 - q) \<le> 1 / 200" using hi by linarith
  ultimately have "\<bar>of_int z / 100 - q\<bar> \<le> 1 / 200" by (rule abs_leI)
  then show ?thesis unfolding z_def [symmetric] eq .
qed

lemma toFixed2_Finite:
  assumes "0 \<le> x"
  shows "two_decimals (toFixed2 (Finite x))" "\<bar>decimal_value (toFixed2 (Finite x)) - x\<bar> \<le> 1 / 200"
proof -
  define n where "n = nat \<lfloor>x * 100 + 1 / 2\<rfloor>"
  have shape: "toFixed2 (Finite x)
      = digits (n div 100) @ C (CHR ''.'') # [digit_char (n mod 100 div 10), digit_char (n mod 10)]"
    by (simp add: toFixed2_def n_def Let_def)
  show "two_decimals (toFixed2 (Finite x))"
    unfolding shape by (rule two_decimals_shape) simp_all
  have "decimal_value (toFixed2 (Finite x))
      = of_nat (100 * (n div 100) + 10 * (n mod 100 div 10) + n mod 10) / 100"
    unfolding shape by (rule decimal_value_shape) simp_all
  then have "decimal_value (toFixed2 (Finite x)) = of_nat n / 100"
    by (simp only: hundredths_split)
  then show "\<bar>decimal_value (toFixed2 (Finite x)) - x\<bar> \<le> 1 / 200"
    using round_close [OF assms] by (simp only: n_def)
qed

text \<open>
  C10. With at least one user, \<open>avgSubscriptionsPerUser\<close> is not a number but a text
  with exactly two decimal places: \<^verbatim>\<open>toFixed(2)\<close> of the double
  \<^verbatim>\<open>totalSubscriptions / users\<close>, so within half a hundredth of that double, which itself
  is within a relative error of \<open>2\<^sup>-\<^sup>5\<^sup>3\<close> of the exact quotient. With no users the field
  is the number \<open>0\<close>.
\<close>

theorem avg_is_text_with_two_decimals:
  "(0 < getUserCount m \<longrightarrow>
      (\<exists>s x. divide_counts (getTotalSubscriptions m) (getUserCount m) = Finite x
         \<and> avgSubscriptionsPerUser (getStats m) = JStr s \<and> s = toFixed2 (Finite x)
         \<and> two_decimals s
         \<and> \<bar>decimal_value s - x\<bar> \<le> 1 / 200
         \<and> \<bar>x - of_nat (getTotalSubscriptions m) / of_nat (getUserCount m)\<bar>
             \<le> of_nat (getTotalSubscriptions m) / of_nat (getUserCount m) / 2 ^ 53))
   \<and> (getUserCount m = 0 \<longrightarrow> avgSubscriptionsPerUser (getStats m) = JNum 0)"
proof (intro conjI impI)
  assume pos: "0 < getUserCount m"
  define x where "x = double_quotient (getTotalSubscriptions m) (getUserCount m)"
  have d: "divide_counts (getTotalSubscriptions m) (getUserCount m) = Finite x"
    using pos by (simp add: divide_counts_def x_def)
  have avg: "avgSubscriptionsPerUser (getStats m) = JStr (toFixed2 (Finite x))"
    using pos by (simp add: getStats_def d)
  have x0: "0 \<le> x" unfolding x_def by (rule double_quotient_nonneg)
  have close: "\<bar>x - of_nat (getTotalSubscriptions m) / of_nat (getUserCount m)\<bar>
      \<le> of_nat (getTotalSubscriptions m) / of_nat (getUserCount m) / 2 ^ 53"
    unfolding x_def using pos by (rule double_quotient_close)
  from d avg toFixed2_Finite [OF x0] close
  show "\<exists>s x. divide_counts (getTotalSubscriptions m) (getUserCount m) = Finite x
         \<and> avgSubscriptionsPerUser (getStats m) = JStr s \<and> s = toFixed2 (Finite x)
         \<and> two_decimals s
         \<and> \<bar>decimal_value s - x\<bar> \<le> 1 / 200
         \<and> \<bar>x - of_nat (getTotalSubscriptions m) / of_nat (getUserCount m)\<bar>
             \<le> of_nat (getTotalSubscriptions m) / of_nat (getUserCount m) / 2 ^ 53"
    by blast
next
  assume "getUserCount m = 0"
  then show "avgSubscriptionsPerUser (getStats m) = JNum 0" by (simp add: getStats_def)
qed

lemma getTotalSubscriptions_sum:
  "getTotalSubscriptions m = sum_list (map (\<lambda>(u, s). length s) m)"
proof -
  have "foldl (\<lambda>total userSubs. total + length userSubs) n (map snd m)
      = n + sum_list (map (\<lambda>(u, s). length s) m)" for n
    by (induction m arbitrary: n) (auto simp: case_prod_beta)
  then show ?thesis by (simp add: getTotalSubscriptions_def)
qed

lemma forty_users_counts: "getUserCount forty_users = 40" "getTotalSubscriptions forty_users = 41"
  by (simp_all add: getUserCount_def getTotalSubscriptions_sum forty_users_def comp_def
      sum_list_triv)

lemma forty_users_average: "avgSubscriptionsPerUser (getStats forty_users) = JStr (U ''1.02'')"
proof -
  have "quotient_exponent 41 40 = 0"
    by (simp add: quotient_exponent_def bit_length.simps)
  then have "toFixed2 (divide_counts 41 40) = U ''1.02''"
    by (simp add: toFixed2_counts round_div_def Let_def digits.simps digit_char_def)
  then show ?thesis
    by (simp only: getStats_def forty_users_counts) simp
qed

theorem avg_is_text_with_two_decimals_witness:
  "(\<exists>s x. divide_counts (getTotalSubscriptions forty_users) (getUserCount forty_users) = Finite x
       \<and> avgSubscriptionsPerUser (getStats forty_users) = JStr s \<and> s = toFixed2 (Finite x)
       \<and> two_decimals s
       \<and> \<bar>decimal_value s - x\<bar> \<le> 1 / 200
       \<and> \<bar>x - of_nat (getTotalSubscriptions forty_users) / of_nat (getUserCount forty_users)\<bar>
           \<le> of_nat (getTotalSubscriptions forty_users) / of_nat (getUserCount forty_users) / 2 ^ 53)
   \<and> avgSubscriptionsPerUser (getStats forty_users) = JStr (U ''1.02'')
   \<and> avgSubscriptionsPerUser (getStats newStorageService) = JNum 0"
proof -
  note t = avg_is_text_with_two_decimals [of forty_users]
  have "0 < getUserCount forty_users" by (simp add: forty_users_counts)
  with t have a: "\<exists>s x. divide_counts (getTotalSubscriptions forty_users) (getUserCount forty_users) = Finite x
       \<and> avgSubscriptionsPerUser (getStats forty_users) = JStr s \<and> s = toFixed2 (Finite x)
       \<and> two_decimals s
       \<and> \<bar>decimal_value s - x\<bar> \<le> 1 / 200
       \<and> \<bar>x - of_nat (getTotalSubscriptions forty_users) / of_nat (getUserCount forty_users)\<bar>
           \<le> of_nat (getTotalSubscriptions forty_users) / of_nat (getUserCount forty_users) / 2 ^ 53"
    by blast
  have "getUserCount newStorageService = 0" by (simp add: getUserCount_def newStorageService_def)
  then have c: "avgSubscriptionsPerUser (getStats newStorageService) = JNum 0"
    using avg_is_text_with_two_decimals [of newStorageService] by blast
  from a forty_users_average c show ?thesis by (intro conjI)
qed

section \<open>Phone-number validation\<close>

lemma repeat_class_all:
  "[] \<in> set (repeat_class P lo hi s) \<longleftrightarrow> lo \<le> length s \<and> length s \<le> hi \<and> list_all P s"
proof (induction hi arbitrary: lo s)
  case 0
  then show ?case by auto
next
  case (Suc hi)
  show ?case
  proof (cases s)
    case Nil
    then show ?thesis by simp
  next
    case (Cons c r)
    then show ?thesis using Suc.IH [of "lo - 1" r] by auto
  qed
qed

lemma plus_not_in_class:
  "\<not> (is_digit (C (CHR ''+'')) \<or> is_space (C (CHR ''+'')) \<or> C (CHR ''+'') = C (CHR ''-'') \<or> C (CHR ''+'') = C (CHR ''('')
      \<or> C (CHR ''+'') = C (CHR '')''))"
  by (simp add: is_digit_def is_space_def)

lemma phoneRegex_test:
  "regex_test phoneRegex t \<longleftrightarrow>
     (let b = (case t of [] \<Rightarrow> [] | c # r \<Rightarrow> if c = C (CHR ''+'') then r else t)
      in 7 \<le> length b \<and> length b \<le> 20 \<and>
         list_all (\<lambda>c. is_digit c \<or> is_space c \<or> c = C (CHR ''-'') \<or> c = C (CHR ''('') \<or> c = C (CHR '')'')) b)"
proof (cases t)
  case Nil
  then show ?thesis by (simp add: regex_test_def phoneRegex_def repeat_class_all)
next
  case (Cons c r)
  show ?thesis
  proof (cases "c = C (CHR ''+'')")
    case True
    then show ?thesis
      using plus_not_in_class
      by (simp add: Cons regex_test_def phoneRegex_def repeat_class_all)
  next
    case False
    then show ?thesis
      by (simp add: Cons regex_test_def phoneRegex_def repeat_class_all)
  qed
qed

lemma isValidPhoneNumber_string:
  "isValidPhoneNumber (Some (JStr s)) = phone_format is_space s"
proof (cases "s = []")
  case True
  then show ?thesis
    by (simp add: isValidPhoneNumber_def phone_format_def phone_body_def trim_def)
next
  case False
  then show ?thesis
    by (simp add: isValidPhoneNumber_def phoneRegex_test phone_format_def phone_body_def Let_def)
qed

lemma phone_format_mono:
  "(\<And>c. blank c \<Longrightarrow> blank' c) \<Longrightarrow> phone_format blank s \<Longrightarrow> phone_format blank' s"
  by (auto simp: phone_format_def list_all_iff)

text \<open>
  C5, as the claim states it, fails: the character class of the source has \<^verbatim>\<open>\s\<close>, so a
  tab between the digits is accepted, and a tab is not a space.
\<close>

theorem isValidPhoneNumber_accepts_tab:
  "isValidPhoneNumber
     (Some (JStr [C (CHR ''1''), C (CHR ''2''), C (CHR ''3''), C (CHR ''4''), 0x09, C (CHR ''5''), C (CHR ''6''), C (CHR ''7'')]))
   \<and> \<not> phone_format plain_space
       [C (CHR ''1''), C (CHR ''2''), C (CHR ''3''), C (CHR ''4''), 0x09, C (CHR ''5''), C (CHR ''6''), C (CHR ''7'')]"
  by (simp add: isValidPhoneNumber_string phone_format_def phone_body_def trim_def is_space_def
      is_digit_def plain_space_def)

text \<open>
  C5, amended. \<open>isValidPhoneNumber\<close> accepts a string exactly when, after trimming
  surrounding white space, it is an optional leading \<open>+\<close> followed by 7 to 20 characters
  that are digits, white-space characters (all that \<^verbatim>\<open>\s\<close> matches: the space, and also
  tab, line feed, vertical tab, form feed, carriage return, no-break space and the
  Unicode spaces and separators listed at \<open>is_space\<close>), hyphens or parentheses. So every
  string of the format with plain spaces is accepted; \<^verbatim>\<open>+1234567890\<close>,
  \<^verbatim>\<open>+49 123 456789\<close> and \<^verbatim>\<open>(555) 123-4567\<close> are accepted; \<^verbatim>\<open>abc\<close>, the empty string and
  every string with fewer than 7 or more than 20 such characters are rejected.
\<close>

theorem isValidPhoneNumber_format:
  "isValidPhoneNumber (Some (JStr s)) = phone_format is_space s
   \<and> (phone_format plain_space s \<longrightarrow> isValidPhoneNumber (Some (JStr s)))
   \<and> isValidPhoneNumber (Some (JStr (U ''+1234567890'')))
   \<and> isValidPhoneNumber (Some (JStr (U ''+49 123 456789'')))
   \<and> isValidPhoneNumber (Some (JStr (U ''(555) 123-4567'')))
   \<and> \<not> isValidPhoneNumber (Some (JStr (U ''abc'')))
   \<and> \<not> isValidPhoneNumber (Some (JStr []))
   \<and> (length (phone_body s) < 7 \<or> 20 < length (phone_body s) \<longrightarrow>
        \<not> isValidPhoneNumber (Some (JStr s)))"
proof (intro conjI impI)
  show "isValidPhoneNumber (Some (JStr s)) = phone_format is_space s"
    by (rule isValidPhoneNumber_string)
  show "isValidPhoneNumber (Some (JStr s))" if "phone_format plain_space s"
    unfolding isValidPhoneNumber_string
    using that by (rule phone_format_mono [rotated]) (simp add: is_space_def plain_space_def)
  show "isValidPhoneNumber (Some (JStr (U ''+1234567890'')))"
    by (simp add: isValidPhoneNumber_string phone_format_def phone_body_def trim_def is_space_def
        is_digit_def)
  show "isValidPhoneNumber (Some (JStr (U ''+49 123 456789'')))"
    by (simp add: isValidPhoneNumber_string phone_format_def phone_body_def trim_def is_space_def
        is_digit_def)
  show "isValidPhoneNumber (Some (JStr (U ''(555) 123-4567'')))"
    by (simp add: isValidPhoneNumber_string phone_format_def phone_body_def trim_def is_space_def
        is_digit_def)
  show "\<not> isValidPhoneNumber (Some (JStr (U ''abc'')))"
    by (simp add: isValidPhoneNumber_string phone_format_def phone_body_def trim_def is_space_def)
  show "\<not> isValidPhoneNumber (Some (JStr []))"
    by (simp add: isValidPhoneNumber_def)
  show "\<not> isValidPhoneNumber (Some (JStr s))"
    if "length (phone_body s) < 7 \<or> 20 < length (phone_body s)"
    using that by (auto simp: isValidPhoneNumber_string phone_format_def)
qed

theorem isValidPhoneNumber_format_witness:
  "isValidPhoneNumber (Some (JStr (U ''  +49 123 456789 '')))
   \<and> isValidPhoneNumber (Some (JStr (U ''1234'' @ [0x2003] @ U ''567'')))
   \<and> \<not> isValidPhoneNumber (Some (JStr (U ''+12345'')))
   \<and> \<not> isValidPhoneNumber (Some (JStr (U ''123456789012345678901'')))"
proof -
  have d: "phone_format is_space (U ''1234'' @ [0x2003] @ U ''567'')"
    by (simp add: phone_format_def phone_body_def trim_def is_space_def is_digit_def)
  have a: "phone_format plain_space (U ''  +49 123 456789 '')"
    by (simp add: phone_format_def phone_body_def trim_def is_space_def is_digit_def
        plain_space_def)
  have b: "length (phone_body (U ''+12345'')) < 7"
    by (simp add: phone_body_def trim_def is_space_def)
  have c: "20 < length (phone_body (U ''123456789012345678901''))"
    by (simp add: phone_body_def trim_def is_space_def)
  from a have "isValidPhoneNumber (Some (JStr (U ''  +49 123 456789 '')))"
    using isValidPhoneNumber_format [of "U ''  +49 123 456789 ''"] by blast
  moreover from d have "isValidPhoneNumber (Some (JStr (U ''1234'' @ [0x2003] @ U ''567'')))"
    using isValidPhoneNumber_format [of "U ''1234'' @ [0x2003] @ U ''567''"] by blast
  moreover from b have "\<not> isValidPhoneNumber (Some (JStr (U ''+12345'')))"
    using isValidPhoneNumber_format [of "U ''+12345''"] by blast
  moreover from c have "\<not> isValidPhoneNumber (Some (JStr (U ''123456789012345678901'')))"
    using isValidPhoneNumber_format [of "U ''123456789012345678901''"] by blast
  ultimately show ?thesis by (intro conjI)
qed

section \<open>Key Manager\<close>

lemma initialize_configured:
  assumes "configured env"
  shows "initialize gen accepts env this email =
     (if accepts (U ''mailto:'' @ email) (env_VAPID_PUBLIC_KEY env) (env_VAPID_PRIVATE_KEY env)
      then Inr (this \<lparr> adminEmail := Some email,
                        publicKey := env_VAPID_PUBLIC_KEY env,
                        privateKey := env_VAPID_PRIVATE_KEY env,
                        vapidDetails := Some (U ''mailto:'' @ email, env_VAPID_PUBLIC_KEY env,
                                              env_VAPID_PRIVATE_KEY env) \<rparr>)
      else Inl (Error, this \<lparr> adminEmail := Some email,
                               publicKey := env_VAPID_PUBLIC_KEY env,
                               privateKey := env_VAPID_PRIVATE_KEY env \<rparr>))"
  using assms by (simp add: initialize_def configured_def Let_def)

lemma initialize_configured_left:
  assumes "configured env"
  shows "publicKey (left_by (initialize gen accepts env this email)) = env_VAPID_PUBLIC_KEY env"
    "privateKey (left_by (initialize gen accepts env this email)) = env_VAPID_PRIVATE_KEY env"
    "generated (left_by (initialize gen accepts env this email)) = generated this"
  by (simp_all add: initialize_configured [OF assms] left_by_def)

lemma initialize_generated:
  assumes "\<not> configured env"
  shows "publicKey (left_by (initialize gen accepts env this email)) = Some (fst (gen (generated this)))"
    "privateKey (left_by (initialize gen accepts env this email)) = Some (snd (gen (generated this)))"
    "generated (left_by (initialize gen accepts env this email)) = generated this + 1"
  using assms by (auto simp add: initialize_def configured_def Let_def left_by_def)

text \<open>
  C8, as the claim states it, fails: with no key pair in the configuration every call
  of \<open>initialize\<close> generates a pair, and the second call replaces the pair of the first.
\<close>

theorem initialize_twice_regenerates:
  "\<exists>this1 this2.
      initialize sample_keygen sample_accepts empty_env newVapidService (U ''ops@example.com'')
        = Inr this1
    \<and> initialize sample_keygen sample_accepts empty_env this1 (U ''ops@example.com'') = Inr this2
    \<and> getPublicKey this1 = Some (fst (sample_keygen 0))
    \<and> getPublicKey this2 = Some (fst (sample_keygen 1))
    \<and> getPublicKey this2 \<noteq> getPublicKey this1"
  by (simp add: initialize_def getPublicKey_def empty_env_def newVapidService_def
      sample_keygen_def sample_accepts_def url_safe_base64_def Let_def)

text \<open>
  C8, amended. When the configuration supplies a key pair (both variables set and not
  empty), every call of \<open>initialize\<close>, whether it returns or throws, leaves that pair
  active verbatim, \<open>getPublicKey\<close> returns the configured public key, no pair is
  generated, and a second call, with whatever contact address, leaves the active pair
  unchanged. The call returns when \<^verbatim>\<open>setVapidDetails\<close> accepts the pair, and a second
  call with the same address then leaves the whole state unchanged; it throws when
  \<^verbatim>\<open>setVapidDetails\<close> refuses the pair, and so does a second call. When the configuration
  supplies no key pair, each call takes the next pair the generator yields.
\<close>

theorem initialize_configured_idempotent:
  "(configured env \<longrightarrow>
      getPublicKey (left_by (initialize gen accepts env this email)) = env_VAPID_PUBLIC_KEY env
      \<and> privateKey (left_by (initialize gen accepts env this email)) = env_VAPID_PRIVATE_KEY env
      \<and> generated (left_by (initialize gen accepts env this email)) = generated this
      \<and> publicKey (left_by (initialize gen accepts env
                              (left_by (initialize gen accepts env this email)) email'))
          = publicKey (left_by (initialize gen accepts env this email))
      \<and> privateKey (left_by (initialize gen accepts env
                               (left_by (initialize gen accepts env this email)) email'))
          = privateKey (left_by (initialize gen accepts env this email))
      \<and> (accepts (U ''mailto:'' @ email) (env_VAPID_PUBLIC_KEY env) (env_VAPID_PRIVATE_KEY env) \<longrightarrow>
           (\<exists>this'. initialize gen accepts env this email = Inr this'
              \<and> getPublicKey this' = env_VAPID_PUBLIC_KEY env
              \<and> vapidDetails this' = Some (U ''mailto:'' @ email, env_VAPID_PUBLIC_KEY env,
                                            env_VAPID_PRIVATE_KEY env)
              \<and> initialize gen accepts env this' email = Inr this'))
      \<and> (\<not> accepts (U ''mailto:'' @ email) (env_VAPID_PUBLIC_KEY env) (env_VAPID_PRIVATE_KEY env) \<longrightarrow>
           (\<exists>this'. initialize gen accepts env this email = Inl (Error, this')
              \<and> getPublicKey this' = env_VAPID_PUBLIC_KEY env
              \<and> vapidDetails this' = vapidDetails this
              \<and> initialize gen accepts env this' email = Inl (Error, this'))))
   \<and> (\<not> configured env \<longrightarrow>
      getPublicKey (left_by (initialize gen accepts env this email))
        = Some (fst (gen (generated this)))
      \<and> getPublicKey (left_by (initialize gen accepts env
                                 (left_by (initialize gen accepts env this email)) email'))
          = Some (fst (gen (generated this + 1))))"
proof (intro conjI impI)
  assume c: "configured env"
  note l = initialize_configured_left [OF c]
  show "getPublicKey (left_by (initialize gen accepts env this email)) = env_VAPID_PUBLIC_KEY env"
    by (simp add: getPublicKey_def l)
  show "privateKey (left_by (initialize gen accepts env this email)) = env_VAPID_PRIVATE_KEY env"
    by (simp add: l)
  show "generated (left_by (initialize gen accepts env this email)) = generated this"
    by (simp add: l)
  show "publicKey (left_by (initialize gen accepts env
                              (left_by (initialize gen accepts env this email)) email'))
          = publicKey (left_by (initialize gen accepts env this email))"
    by (simp add: l)
  show "privateKey (left_by (initialize gen accepts env
                               (left_by (initialize gen accepts env this email)) email'))
          = privateKey (left_by (initialize gen accepts env this email))"
    by (simp add: l)
  show "\<exists>this'. initialize gen accepts env this email = Inr this'
              \<and> getPublicKey this' = env_VAPID_PUBLIC_KEY env
              \<and> vapidDetails this' = Some (U ''mailto:'' @ email, env_VAPID_PUBLIC_KEY env,
                                            env_VAPID_PRIVATE_KEY env)
              \<and> initialize gen accepts env this' email = Inr this'"
    if "accepts (U ''mailto:'' @ email) (env_VAPID_PUBLIC_KEY env) (env_VAPID_PRIVATE_KEY env)"
    using that by (simp add: initialize_configured [OF c] getPublicKey_def)
  show "\<exists>this'. initialize gen accepts env this email = Inl (Error, this')
              \<and> getPublicKey this' = env_VAPID_PUBLIC_KEY env
              \<and> vapidDetails this' = vapidDetails this
              \<and> initialize gen accepts env this' email = Inl (Error, this')"
    if "\<not> accepts (U ''mailto:'' @ email) (env_VAPID_PUBLIC_KEY env) (env_VAPID_PRIVATE_KEY env)"
    using that by (simp add: initialize_configured [OF c] getPublicKey_def)
next
  assume n: "\<not> configured env"
  note g = initialize_generated [OF n]
  show "getPublicKey (left_by (initialize gen accepts env this email))
        = Some (fst (gen (generated this)))"
    by (simp add: getPublicKey_def g)
  show "getPublicKey (left_by (initialize gen accepts env
                                 (left_by (initialize gen accepts env this email)) email'))
          = Some (fst (gen (generated this + 1)))"
    by (simp add: getPublicKey_def g)
qed

theorem initialize_configured_idempotent_witness:
  "(\<exists>this'. initialize sample_keygen sample_accepts keyed_env newVapidService (U ''ops@example.com'')
        = Inr this'
      \<and> getPublicKey this' = env_VAPID_PUBLIC_KEY keyed_env
      \<and> initialize sample_keygen sample_accepts keyed_env this' (U ''ops@example.com'') = Inr this')
   \<and> (\<exists>this'. initialize sample_keygen sample_accepts short_keyed_env newVapidService
                  (U ''ops@example.com'') = Inl (Error, this')
      \<and> getPublicKey this' = Some (U ''BPub'')
      \<and> initialize sample_keygen sample_accepts short_keyed_env this' (U ''ops@example.com'')
          = Inl (Error, this'))
   \<and> getPublicKey (left_by (initialize sample_keygen sample_accepts empty_env
        (left_by (initialize sample_keygen sample_accepts empty_env newVapidService
                    (U ''ops@example.com''))) (U ''ops@example.com'')))
      = Some (fst (sample_keygen 1))"
proof -
  have c: "configured keyed_env" by (simp add: configured_def keyed_env_def)
  have s: "configured short_keyed_env" by (simp add: configured_def short_keyed_env_def)
  have n: "\<not> configured empty_env" by (simp add: configured_def empty_env_def)
  have acc: "sample_accepts (U ''mailto:'' @ U ''ops@example.com'')
      (env_VAPID_PUBLIC_KEY keyed_env) (env_VAPID_PRIVATE_KEY keyed_env)"
    by (simp add: sample_accepts_def keyed_env_def url_safe_base64_def)
  have ref: "\<not> sample_accepts (U ''mailto:'' @ U ''ops@example.com'')
      (env_VAPID_PUBLIC_KEY short_keyed_env) (env_VAPID_PRIVATE_KEY short_keyed_env)"
    by (simp add: sample_accepts_def short_keyed_env_def)
  note t = initialize_configured_idempotent
    [of keyed_env sample_keygen sample_accepts newVapidService "U ''ops@example.com''"
        "U ''ops@example.com''"]
  note v = initialize_configured_idempotent
    [of short_keyed_env sample_keygen sample_accepts newVapidService "U ''ops@example.com''"
        "U ''ops@example.com''"]
  note w = initialize_configured_idempotent
    [of empty_env sample_keygen sample_accepts newVapidService "U ''ops@example.com''"
        "U ''ops@example.com''"]
  from t c acc have a: "\<exists>this'. initialize sample_keygen sample_accepts keyed_env newVapidService
        (U ''ops@example.com'') = Inr this'
      \<and> getPublicKey this' = env_VAPID_PUBLIC_KEY keyed_env
      \<and> initialize sample_keygen sample_accepts keyed_env this' (U ''ops@example.com'') = Inr this'"
    by blast
  from v s ref have "\<exists>this'. initialize sample_keygen sample_accepts short_keyed_env newVapidService
                  (U ''ops@example.com'') = Inl (Error, this')
      \<and> getPublicKey this' = env_VAPID_PUBLIC_KEY short_keyed_env
      \<and> initialize sample_keygen sample_accepts short_keyed_env this' (U ''ops@example.com'')
          = Inl (Error, this')"
    by blast
  then have b: "\<exists>this'. initialize sample_keygen sample_accepts short_keyed_env newVapidService
                  (U ''ops@example.com'') = Inl (Error, this')
      \<and> getPublicKey this' = Some (U ''BPub'')
      \<and> initialize sample_keygen sample_accepts short_keyed_env this' (U ''ops@example.com'')
          = Inl (Error, this')"
    by (simp only: short_keyed_env_def process_env.simps)
  from w n have "getPublicKey (left_by (initialize sample_keygen sample_accepts empty_env
        (left_by (initialize sample_keygen sample_accepts empty_env newVapidService
                    (U ''ops@example.com''))) (U ''ops@example.com'')))
      = Some (fst (sample_keygen (generated newVapidService + 1)))" by blast
  then have d: "getPublicKey (left_by (initialize sample_keygen sample_accepts empty_env
        (left_by (initialize sample_keygen sample_accepts empty_env newVapidService
                    (U ''ops@example.com''))) (U ''ops@example.com'')))
      = Some (fst (sample_keygen 1))" by (simp add: newVapidService_def)
  from a b d show ?thesis by (intro conjI)
qed

section \<open>Notification Dispatcher\<close>

lemma createCallPayload_sample:
  "createCallPayload (U ''+49 123 456789'') (U ''https://crm.example'') = Inr sample_payload"
  by (simp add: createCallPayload_def sample_payload_def uri_unreserved_def percent_encode_def
      utf8_def percent_byte_def upper_hex_def is_high_surrogate_def is_low_surrogate_def)

text \<open>
  C6. For a user with no stored subscriptions, and so for a user who never
  registered, \<open>sendToUser\<close> returns \<open>{sent: 0, total: 0}\<close>: it raises no error, hands
  nothing to the transport and leaves the Store as it was.
\<close>

theorem sendToUser_no_subscriptions:
  "(Map_get m u = None \<longrightarrow> getSubscriptions m u = Inr [])
   \<and> (getSubscriptions m u = Inr [] \<longrightarrow>
        sendToUser wp m u payload =
          Inr \<lparr> counts = \<lparr> sent = 0, total = 0 \<rparr>, storage = m, deliveries = [] \<rparr>)"
  by (simp add: getSubscriptions_unknown sendToUser_def)

theorem sendToUser_no_subscriptions_witness:
  "sendToUser gone_transport [(U ''bob'', [JSON_stringify sample_subscription])] (U ''alice'')
       sample_payload
     = Inr \<lparr> counts = \<lparr> sent = 0, total = 0 \<rparr>,
             storage = [(U ''bob'', [JSON_stringify sample_subscription])], deliveries = [] \<rparr>"
proof -
  have "Map_get [(U ''bob'', [JSON_stringify sample_subscription])] (U ''alice'') = None"
    by (simp add: Map_get_def)
  then show ?thesis
    using sendToUser_no_subscriptions
      [of "[(U ''bob'', [JSON_stringify sample_subscription])]" "U ''alice''" gone_transport
          sample_payload]
    by blast
qed

lemma remove_all_simps [simp]:
  "remove_all m u [] = m"
  "remove_all m u (s # ss) = remove_all (removeSubscription m u s) u ss"
  by (simp_all add: remove_all_def)

lemma forEach_result_eq:
  "forEach_result u (zip (map f subs) subs) (n, m) =
     (n + length (filter (\<lambda>s. f s = fulfilled) subs),
      remove_all m u (filter (\<lambda>s. permanent (f s)) subs))"
proof (induction subs arbitrary: n m)
  case Nil
  then show ?case by simp
next
  case (Cons s subs)
  show ?case
  proof (cases "f s")
    case fulfilled
    then show ?thesis using Cons.IH [of "n + 1" m] by (simp add: permanent_def)
  next
    case (rejected e)
    then show ?thesis
      using Cons.IH [of n m] Cons.IH [of n "removeSubscription m u s"]
      by (simp add: permanent_def)
  qed
qed

lemma user_keys_remove_all:
  "user_keys (remove_all m u ss) u' =
     (if u' = u then filter (\<lambda>k. k \<notin> JSON_stringify ` set ss) (user_keys m u)
      else user_keys m u')"
proof (induction ss arbitrary: m)
  case Nil
  then show ?case by simp
next
  case (Cons s ss)
  show ?case
    by (simp add: Cons.IH user_keys_removeSubscription removeAll_filter_not_eq conj_commute
        cong: filter_cong) (auto intro: filter_cong)
qed

lemma Map_get_remove_all_other:
  "u' \<noteq> u \<Longrightarrow> Map_get (remove_all m u ss) u' = Map_get m u'"
  by (induction ss arbitrary: m) (simp_all add: Map_get_removeSubscription_other)

lemma store_ok_remove_all: "store_ok m \<Longrightarrow> store_ok (remove_all m u ss)"
  by (induction ss arbitrary: m) (simp_all add: store_ok_remove)

lemma filter_parsed_keys:
  assumes "list_all key_ok ks"
  shows "map parsed (filter (\<lambda>k. k \<notin> JSON_stringify ` set (filter P (map parsed ks))) ks)
     = filter (\<lambda>s. \<not> P s) (map parsed ks)"
proof -
  have "k \<notin> JSON_stringify ` set (filter P (map parsed ks)) \<longleftrightarrow> \<not> P (parsed k)"
    if "k \<in> set ks" for k
  proof -
    have ok: "key_ok k" using assms that by (simp add: list_all_iff)
    show ?thesis
    proof
      assume "k \<notin> JSON_stringify ` set (filter P (map parsed ks))"
      then show "\<not> P (parsed k)"
        using that stringify_parsed [OF ok] by force
    next
      assume n: "\<not> P (parsed k)"
      show "k \<notin> JSON_stringify ` set (filter P (map parsed ks))"
      proof
        assume "k \<in> JSON_stringify ` set (filter P (map parsed ks))"
        then obtain k' where k': "k' \<in> set ks" "P (parsed k')" "k = JSON_stringify (parsed k')"
          by auto
        then have "key_ok k'" using assms by (simp add: list_all_iff)
        then have "k = k'" using k'(3) by (simp add: stringify_parsed)
        with k'(2) n show False by simp
      qed
    qed
  qed
  then have "filter (\<lambda>k. k \<notin> JSON_stringify ` set (filter P (map parsed ks))) ks
      = filter (\<lambda>k. \<not> P (parsed k)) ks"
    by (intro filter_cong) simp_all
  then show ?thesis by (simp add: filter_map comp_def)
qed

text \<open>
  C1. Take a Store whose keys are sound, as every Store is that the operations build
  from records of the model (\<open>store_ok_run\<close>), and any transport. For a user with the
  \<open>N\<close> stored subscriptions \<open>subs\<close>, \<open>sendToUser\<close> returns \<open>total = N\<close> and \<open>sent\<close> = the
  number of deliveries that succeeded. The Store it leaves is the old one with exactly
  the subscriptions removed whose delivery failed with status 410 or 400: the user
  then holds the other subscriptions, \<open>N\<close> minus the number of permanent failures many,
  every other user holds what he held, and with no permanent failure the Store is
  unchanged.
\<close>

theorem sendToUser_fan_out:
  "store_ok m \<longrightarrow>
     (\<exists>subs d.
        getSubscriptions m u = Inr subs
        \<and> sendToUser wp m u payload = Inr d
        \<and> total (counts d) = length subs
        \<and> sent (counts d)
            = length (filter (\<lambda>s. sendNotification wp s payload u = fulfilled) subs)
        \<and> storage d
            = remove_all m u (filter (\<lambda>s. permanent (sendNotification wp s payload u)) subs)
        \<and> getSubscriptions (storage d) u
            = Inr (filter (\<lambda>s. \<not> permanent (sendNotification wp s payload u)) subs)
        \<and> length (filter (\<lambda>s. \<not> permanent (sendNotification wp s payload u)) subs)
            = length subs - length (filter (\<lambda>s. permanent (sendNotification wp s payload u)) subs)
        \<and> (\<forall>u'. u' \<noteq> u \<longrightarrow> Map_get (storage d) u' = Map_get m u')
        \<and> (list_all (\<lambda>s. \<not> permanent (sendNotification wp s payload u)) subs \<longrightarrow> storage d = m)
        \<and> store_ok (storage d))"
proof
  assume ok: "store_ok m"
  define f where "f = (\<lambda>s. sendNotification wp s payload u)"
  define subs where "subs = map parsed (user_keys m u)"
  define m' where "m' = remove_all m u (filter (\<lambda>s. permanent (f s)) subs)"
  define d where "d = \<lparr> counts = \<lparr> sent = length (filter (\<lambda>s. f s = fulfilled) subs),
                                     total = length subs \<rparr>,
                         storage = m', deliveries = subs \<rparr>"
  have get: "getSubscriptions m u = Inr subs"
    unfolding subs_def using ok by (rule getSubscriptions_ok)
  have send: "sendToUser wp m u payload = Inr d"
  proof (cases "subs = []")
    case True
    then show ?thesis by (simp add: sendToUser_def get d_def m'_def)
  next
    case False
    then show ?thesis
      using forEach_result_eq [of u f subs 0 m]
      by (simp add: sendToUser_def get d_def m'_def f_def Let_def)
  qed
  have ok': "store_ok m'" unfolding m'_def using ok by (rule store_ok_remove_all)
  have keys: "list_all key_ok (user_keys m u)" using ok by (rule key_ok_user_keys)
  have "getSubscriptions m' u = Inr (map parsed (user_keys m' u))"
    using ok' by (rule getSubscriptions_ok)
  also have "map parsed (user_keys m' u) = filter (\<lambda>s. \<not> permanent (f s)) subs"
    unfolding m'_def subs_def
    by (simp only: user_keys_remove_all refl if_True filter_parsed_keys [OF keys])
  finally have after: "getSubscriptions m' u = Inr (filter (\<lambda>s. \<not> permanent (f s)) subs)" .
  have len: "length (filter (\<lambda>s. \<not> permanent (f s)) subs)
      = length subs - length (filter (\<lambda>s. permanent (f s)) subs)"
    using sum_length_filter_compl [of "\<lambda>s. permanent (f s)" subs] by simp
  have other: "\<forall>u'. u' \<noteq> u \<longrightarrow> Map_get m' u' = Map_get m u'"
    unfolding m'_def by (simp add: Map_get_remove_all_other)
  have same: "list_all (\<lambda>s. \<not> permanent (f s)) subs \<longrightarrow> m' = m"
    unfolding m'_def by (simp add: list_all_iff filter_False)
  show "\<exists>subs d.
        getSubscriptions m u = Inr subs
        \<and> sendToUser wp m u payload = Inr d
        \<and> total (counts d) = length subs
        \<and> sent (counts d)
            = length (filter (\<lambda>s. sendNotification wp s payload u = fulfilled) subs)
        \<and> storage d
            = remove_all m u (filter (\<lambda>s. permanent (sendNotification wp s payload u)) subs)
        \<and> getSubscriptions (storage d) u
            = Inr (filter (\<lambda>s. \<not> permanent (sendNotification wp s payload u)) subs)
        \<and> length (filter (\<lambda>s. \<not> permanent (sendNotification wp s payload u)) subs)
            = length subs - length (filter (\<lambda>s. permanent (sendNotification wp s payload u)) subs)
        \<and> (\<forall>u'. u' \<noteq> u \<longrightarrow> Map_get (storage d) u' = Map_get m u')
        \<and> (list_all (\<lambda>s. \<not> permanent (sendNotification wp s payload u)) subs \<longrightarrow> storage d = m)
        \<and> store_ok (storage d)"
  proof (intro exI [of _ subs] exI [of _ d] conjI)
    show "getSubscriptions m u = Inr subs" by (rule get)
    show "sendToUser wp m u payload = Inr d" by (rule send)
    show "total (counts d) = length subs" by (simp add: d_def)
    show "sent (counts d) = length (filter (\<lambda>s. sendNotification wp s payload u = fulfilled) subs)"
      by (simp add: d_def f_def)
    show "storage d = remove_all m u (filter (\<lambda>s. permanent (sendNotification wp s payload u)) subs)"
      by (simp add: d_def m'_def f_def)
    show "getSubscriptions (storage d) u
        = Inr (filter (\<lambda>s. \<not> permanent (sendNotification wp s payload u)) subs)"
      using after by (simp add: d_def f_def)
    show "length (filter (\<lambda>s. \<not> permanent (sendNotification wp s payload u)) subs)
        = length subs - length (filter (\<lambda>s. permanent (sendNotification wp s payload u)) subs)"
      using len by (simp add: f_def)
    show "\<forall>u'. u' \<noteq> u \<longrightarrow> Map_get (storage d) u' = Map_get m u'"
      using other by (simp add: d_def)
    show "list_all (\<lambda>s. \<not> permanent (sendNotification wp s payload u)) subs \<longrightarrow> storage d = m"
      using same by (simp add: d_def f_def)
    show "store_ok (storage d)" using ok' by (simp add: d_def)
  qed
qed

lemma sample_store_eq:
  "sample_store =
     [(U ''alice'', [JSON_stringify sample_subscription, JSON_stringify sample_gone,
                  JSON_stringify sample_busy]),
      (U ''bob'', [JSON_stringify sample_subscription])]"
  by (simp add: sample_store_def run_def newStorageService_def addSubscription_eq user_keys_def
      Map_get_def Set_add_def sample_keys_differ)

lemma sample_store_ok: "store_ok sample_store"
  unfolding sample_store_def
  by (rule store_ok_run [OF store_ok_new]) (simp add: sample_wf)

lemma sample_outcomes:
  "sendNotification sample_transport sample_subscription p u = fulfilled"
  "\<not> permanent fulfilled"
  "permanent (sendNotification sample_transport sample_gone p u)"
  "sendNotification sample_transport sample_gone p u \<noteq> fulfilled"
  "\<not> permanent (sendNotification sample_transport sample_busy p u)"
  "sendNotification sample_transport sample_busy p u \<noteq> fulfilled"
  by (simp_all add: sendNotification_def sample_transport_def permanent_def
      sample_subscription_def sample_gone_def sample_busy_def)

theorem sendToUser_fan_out_witness:
  "\<exists>d. sendToUser sample_transport sample_store (U ''alice'')
          sample_payload = Inr d
       \<and> counts d = \<lparr> sent = 1, total = 3 \<rparr>
       \<and> getSubscriptions (storage d) (U ''alice'') = Inr [sample_subscription, sample_busy]
       \<and> Map_get (storage d) (U ''bob'') = Some [JSON_stringify sample_subscription]"
proof -
  let ?p = sample_payload
  have subs: "getSubscriptions sample_store (U ''alice'')
      = Inr [sample_subscription, sample_gone, sample_busy]"
    using getSubscriptions_ok [OF sample_store_ok, of "U ''alice''"]
    by (simp add: sample_store_eq user_keys_def Map_get_def parsed_stringify sample_wf)
  obtain ss d where d:
    "getSubscriptions sample_store (U ''alice'') = Inr ss"
    "sendToUser sample_transport sample_store (U ''alice'') ?p = Inr d"
    "total (counts d) = length ss"
    "sent (counts d)
       = length (filter (\<lambda>s. sendNotification sample_transport s ?p (U ''alice'') = fulfilled) ss)"
    "getSubscriptions (storage d) (U ''alice'')
       = Inr (filter (\<lambda>s. \<not> permanent (sendNotification sample_transport s ?p (U ''alice''))) ss)"
    "\<forall>u'. u' \<noteq> (U ''alice'') \<longrightarrow> Map_get (storage d) u' = Map_get sample_store u'"
    using sendToUser_fan_out [of sample_store "U ''alice''" sample_transport ?p] sample_store_ok
    by blast
  have ss: "ss = [sample_subscription, sample_gone, sample_busy]"
    using d(1) subs by simp
  have "sent (counts d) = 1" "total (counts d) = 3"
    using d(3,4) by (simp_all add: ss sample_outcomes)
  then have c: "counts d = \<lparr> sent = 1, total = 3 \<rparr>" by simp
  have g: "getSubscriptions (storage d) (U ''alice'') = Inr [sample_subscription, sample_busy]"
    using d(5) by (simp add: ss sample_outcomes)
  have b: "Map_get (storage d) (U ''bob'') = Some [JSON_stringify sample_subscription]"
    using d(6) by (simp add: sample_store_eq Map_get_def)
  from d(2) c g b show ?thesis by blast
qed

section \<open>The webhook route\<close>

lemma WEBHOOK_TOKEN_nonempty: "WEBHOOK_TOKEN env \<noteq> []"
  by (cases "env_WEBHOOK_TOKEN env") (auto simp: WEBHOOK_TOKEN_def)

lemma validateWebhookToken_cases:
  "validateWebhookToken expected req =
     (if x_webhook_token req = None \<or> x_webhook_token req = Some [] then
        Responds (error_response 401 (U ''Unauthorized'') (U ''Missing webhook token''))
      else if x_webhook_token req \<noteq> Some expected then
        Responds (error_response 403 (U ''Forbidden'') (U ''Invalid webhook token''))
      else Next req)"
  by (cases "x_webhook_token req") (auto simp: validateWebhookToken_def)

lemma isValidPhoneNumber_needs_string:
  "v = None \<or> \<not> typeof_string v \<Longrightarrow> \<not> isValidPhoneNumber v"
  by (auto simp: isValidPhoneNumber_def)

lemma validateCallWebhook_invalid_callee:
  assumes "body req = Some b" "b \<noteq> JNull"
    and "\<not> isValidPhoneNumber (get_prop b (U ''callee_number''))"
  shows "\<exists>res. validateCallWebhook req = Responds res \<and> status res = 400"
  using assms
  by (auto simp: validateCallWebhook_def error_response_def Let_def)

lemma express_json_head:
  assumes "express_json inc = Next req"
  shows "x_webhook_token req = x_webhook_token inc" "content inc = Inr (body req)"
  using assms by (auto simp: express_json_def split: sum.splits)

lemma express_json_sample:
  "express_json sample_incoming = Next sample_request"
  "express_json (sample_incoming \<lparr> x_webhook_token := t \<rparr>)
     = Next (sample_request \<lparr> x_webhook_token := t \<rparr>)"
  "express_json (sample_incoming \<lparr> content := Inr b \<rparr>) = Next (sample_request \<lparr> body := b \<rparr>)"
  by (simp_all add: express_json_def sample_incoming_def sample_request_def)

text \<open>A body that \<^verbatim>\<open>express.json()\<close> refuses is answered 500, whatever the token.\<close>

lemma refused_body_is_answered_500:
  assumes "content inc = Inl err"
  shows "status (response (post_webhooks_call env limited wp m inc)) = 500"
    "dispatcher_calls (post_webhooks_call env limited wp m inc) = []"
    "store_after (post_webhooks_call env limited wp m inc) = m"
  using assms
  by (simp_all add: post_webhooks_call_def express_json_def error_middleware_def
      error_response_def)

text \<open>
  A request with the configured token that reaches \<^verbatim>\<open>validateCallWebhook\<close> with
  \<^verbatim>\<open>req.body\<close> \<^verbatim>\<open>undefined\<close> makes the destructuring throw, and is answered 500.
\<close>

lemma undefined_body_is_answered_500:
  assumes "express_json inc = Next req" "\<not> limited req"
    and "x_webhook_token inc = Some (WEBHOOK_TOKEN env)" "body req = None"
  shows "status (response (post_webhooks_call env limited wp m inc)) = 500"
    "dispatcher_calls (post_webhooks_call env limited wp m inc) = []"
    "store_after (post_webhooks_call env limited wp m inc) = m"
proof -
  have "validateWebhookToken (WEBHOOK_TOKEN env) req = Next req"
    using assms(3) WEBHOOK_TOKEN_nonempty [of env] express_json_head(1) [OF assms(1)]
    by (simp add: validateWebhookToken_cases)
  moreover have "validateCallWebhook req = Fails TypeError"
    using assms(4) by (simp add: validateCallWebhook_def)
  ultimately show "status (response (post_webhooks_call env limited wp m inc)) = 500"
    "dispatcher_calls (post_webhooks_call env limited wp m inc) = []"
    "store_after (post_webhooks_call env limited wp m inc) = m"
    using assms(1,2)
    by (simp_all add: post_webhooks_call_def error_middleware_def error_response_def)
qed

text \<open>
  C2, as the claim states it, fails three times. A request whose \<^verbatim>\<open>X-Webhook-Token\<close>
  header is present but empty differs from the configured token and is answered 401,
  not 403: the source tests \<^verbatim>\<open>!token\<close>. The rate limiter stands before the token check:
  a request over the limit is answered 429 whatever its token. And \<^verbatim>\<open>express.json()\<close>
  stands before both: a request without a token whose body does not parse is answered
  500 by the error handler, not 401.
\<close>

theorem empty_token_is_unauthenticated:
  "x_webhook_token (sample_incoming \<lparr> x_webhook_token := Some [] \<rparr>) = Some []
   \<and> Some [] \<noteq> Some (WEBHOOK_TOKEN empty_env)
   \<and> status (response (post_webhooks_call empty_env never_limited gone_transport newStorageService
        (sample_incoming \<lparr> x_webhook_token := Some [] \<rparr>))) = 401
   \<and> status (response (post_webhooks_call empty_env always_limited gone_transport newStorageService
        (sample_incoming \<lparr> x_webhook_token := None \<rparr>))) = 429
   \<and> x_webhook_token malformed_incoming = None
   \<and> status (response (post_webhooks_call empty_env never_limited gone_transport newStorageService
        malformed_incoming)) = 500"
proof -
  have "content malformed_incoming = Inl SyntaxError" by (simp add: malformed_incoming_def)
  then have "status (response (post_webhooks_call empty_env never_limited gone_transport
      newStorageService malformed_incoming)) = 500"
    by (rule refused_body_is_answered_500)
  moreover have "x_webhook_token malformed_incoming = None" by (simp add: malformed_incoming_def)
  ultimately show ?thesis
    by (simp add: post_webhooks_call_def express_json_sample validateWebhookToken_cases
        error_response_def never_limited_def always_limited_def
        WEBHOOK_TOKEN_nonempty [symmetric])
qed

text \<open>
  C2, amended. For every webhook request whose body \<^verbatim>\<open>express.json()\<close> parses and which
  the rate limiter lets through: if the \<^verbatim>\<open>X-Webhook-Token\<close> header is absent or empty
  the status is 401; if it is present, not empty and differs from the configured token
  the status is 403; if it matches and \<^verbatim>\<open>callee_number\<close> is missing from the parsed body,
  not a string or fails the phone-number validation the status is 400. In all three
  cases the Dispatcher is not invoked and the Store is unchanged.
\<close>

theorem webhook_rejections:
  "express_json inc = Next req \<and> \<not> limited req \<longrightarrow>
      (x_webhook_token inc = None \<or> x_webhook_token inc = Some [] \<longrightarrow>
         status (response (post_webhooks_call env limited wp m inc)) = 401
         \<and> dispatcher_calls (post_webhooks_call env limited wp m inc) = []
         \<and> store_after (post_webhooks_call env limited wp m inc) = m)
      \<and> (x_webhook_token inc = Some t \<and> t \<noteq> [] \<and> t \<noteq> WEBHOOK_TOKEN env \<longrightarrow>
         status (response (post_webhooks_call env limited wp m inc)) = 403
         \<and> dispatcher_calls (post_webhooks_call env limited wp m inc) = []
         \<and> store_after (post_webhooks_call env limited wp m inc) = m)
      \<and> (x_webhook_token inc = Some (WEBHOOK_TOKEN env)
          \<and> body req = Some b \<and> b \<noteq> JNull
          \<and> (get_prop b (U ''callee_number'') = None
              \<or> \<not> typeof_string (get_prop b (U ''callee_number''))
              \<or> \<not> isValidPhoneNumber (get_prop b (U ''callee_number''))) \<longrightarrow>
         status (response (post_webhooks_call env limited wp m inc)) = 400
         \<and> dispatcher_calls (post_webhooks_call env limited wp m inc) = []
         \<and> store_after (post_webhooks_call env limited wp m inc) = m)"
proof (intro conjI impI)
  assume h: "express_json inc = Next req \<and> \<not> limited req"
    and "x_webhook_token inc = None \<or> x_webhook_token inc = Some []"
  then have "validateWebhookToken (WEBHOOK_TOKEN env) req
      = Responds (error_response 401 (U ''Unauthorized'') (U ''Missing webhook token''))"
    using express_json_head(1) [of inc req] by (simp add: validateWebhookToken_cases)
  with h show "status (response (post_webhooks_call env limited wp m inc)) = 401"
    "dispatcher_calls (post_webhooks_call env limited wp m inc) = []"
    "store_after (post_webhooks_call env limited wp m inc) = m"
    by (simp_all add: post_webhooks_call_def error_response_def)
next
  assume h: "express_json inc = Next req \<and> \<not> limited req"
    and "x_webhook_token inc = Some t \<and> t \<noteq> [] \<and> t \<noteq> WEBHOOK_TOKEN env"
  then have "validateWebhookToken (WEBHOOK_TOKEN env) req
      = Responds (error_response 403 (U ''Forbidden'') (U ''Invalid webhook token''))"
    using express_json_head(1) [of inc req] by (simp add: validateWebhookToken_cases)
  with h show "status (response (post_webhooks_call env limited wp m inc)) = 403"
    "dispatcher_calls (post_webhooks_call env limited wp m inc) = []"
    "store_after (post_webhooks_call env limited wp m inc) = m"
    by (simp_all add: post_webhooks_call_def error_response_def)
next
  assume h: "express_json inc = Next req \<and> \<not> limited req"
    and a: "x_webhook_token inc = Some (WEBHOOK_TOKEN env)
      \<and> body req = Some b \<and> b \<noteq> JNull
      \<and> (get_prop b (U ''callee_number'') = None
          \<or> \<not> typeof_string (get_prop b (U ''callee_number''))
          \<or> \<not> isValidPhoneNumber (get_prop b (U ''callee_number'')))"
  then have tok: "validateWebhookToken (WEBHOOK_TOKEN env) req = Next req"
    using WEBHOOK_TOKEN_nonempty [of env] express_json_head(1) [of inc req]
    by (simp add: validateWebhookToken_cases)
  have "\<not> isValidPhoneNumber (get_prop b (U ''callee_number''))"
    using a isValidPhoneNumber_needs_string by blast
  then obtain res where res: "validateCallWebhook req = Responds res" "status res = 400"
    using a validateCallWebhook_invalid_callee by blast
  with h tok show "status (response (post_webhooks_call env limited wp m inc)) = 400"
    "dispatcher_calls (post_webhooks_call env limited wp m inc) = []"
    "store_after (post_webhooks_call env limited wp m inc) = m"
    by (simp_all add: post_webhooks_call_def)
qed

theorem webhook_rejections_witness:
  "status (response (post_webhooks_call empty_env never_limited gone_transport
       [(U ''bob'', [JSON_stringify sample_subscription])]
       (sample_incoming \<lparr> x_webhook_token := Some (U ''nope'') \<rparr>))) = 403
   \<and> dispatcher_calls (post_webhooks_call empty_env never_limited gone_transport
       [(U ''bob'', [JSON_stringify sample_subscription])]
       (sample_incoming \<lparr> x_webhook_token := Some (U ''nope'') \<rparr>)) = []
   \<and> store_after (post_webhooks_call empty_env never_limited gone_transport
       [(U ''bob'', [JSON_stringify sample_subscription])]
       (sample_incoming \<lparr> x_webhook_token := Some (U ''nope'') \<rparr>))
       = [(U ''bob'', [JSON_stringify sample_subscription])]
   \<and> status (response (post_webhooks_call empty_env never_limited gone_transport
       [(U ''bob'', [JSON_stringify sample_subscription])]
       (sample_incoming \<lparr> x_webhook_token := None \<rparr>))) = 401
   \<and> status (response (post_webhooks_call empty_env never_limited gone_transport
       [(U ''bob'', [JSON_stringify sample_subscription])]
       (sample_incoming \<lparr> content := Inr (Some (JObj [(U ''owner_user_id'', JStr (U ''alice'')),
                                                       (U ''callee_number'', JStr (U ''abc''))])) \<rparr>)))
       = 400
   \<and> status (response (post_webhooks_call empty_env never_limited gone_transport
       [(U ''bob'', [JSON_stringify sample_subscription])] sample_incoming)) = 200
   \<and> map fst (dispatcher_calls (post_webhooks_call empty_env never_limited gone_transport
       [(U ''bob'', [JSON_stringify sample_subscription])] sample_incoming)) = [U ''alice'']"
proof -
  let ?m = "[(U ''bob'', [JSON_stringify sample_subscription])]"
  let ?route = "post_webhooks_call empty_env never_limited gone_transport ?m"
  have tok: "WEBHOOK_TOKEN empty_env = U ''default-webhook-token''"
    by (simp add: WEBHOOK_TOKEN_def empty_env_def)
  have tok_inc: "x_webhook_token sample_incoming = Some (U ''default-webhook-token'')"
    by (simp add: sample_incoming_def)
  note wrong = webhook_rejections
    [where limited = never_limited and t = "U ''nope''" and env = empty_env and wp = gone_transport
       and m = ?m and inc = "sample_incoming \<lparr> x_webhook_token := Some (U ''nope'') \<rparr>"
       and req = "sample_request \<lparr> x_webhook_token := Some (U ''nope'') \<rparr>"]
  have w: "status (response (?route (sample_incoming \<lparr> x_webhook_token := Some (U ''nope'') \<rparr>))) = 403
      \<and> dispatcher_calls (?route (sample_incoming \<lparr> x_webhook_token := Some (U ''nope'') \<rparr>)) = []
      \<and> store_after (?route (sample_incoming \<lparr> x_webhook_token := Some (U ''nope'') \<rparr>)) = ?m"
    using wrong by (simp add: never_limited_def tok express_json_sample)
  note absent = webhook_rejections
    [where limited = never_limited and t = "[]" and env = empty_env and wp = gone_transport
       and m = ?m and inc = "sample_incoming \<lparr> x_webhook_token := None \<rparr>"
       and req = "sample_request \<lparr> x_webhook_token := None \<rparr>"]
  have a: "status (response (?route (sample_incoming \<lparr> x_webhook_token := None \<rparr>))) = 401"
    using absent by (simp add: never_limited_def express_json_sample)
  let ?b = "JObj [(U ''owner_user_id'', JStr (U ''alice'')), (U ''callee_number'', JStr (U ''abc''))]"
  note callee = webhook_rejections
    [where limited = never_limited and t = "[]" and env = empty_env and wp = gone_transport
       and m = ?m and inc = "sample_incoming \<lparr> content := Inr (Some ?b) \<rparr>"
       and req = "sample_request \<lparr> body := Some ?b \<rparr>" and b = ?b]
  have abc: "\<not> isValidPhoneNumber (Some (JStr (U ''abc'')))"
    by (simp add: isValidPhoneNumber_string phone_format_def phone_body_def trim_def is_space_def)
  have c: "status (response (?route (sample_incoming \<lparr> content := Inr (Some ?b) \<rparr>))) = 400"
    using callee abc by (simp add: never_limited_def tok tok_inc express_json_sample)
  have ok: "isValidPhoneNumber (Some (JStr (U ''+49 123 456789'')))"
    by (simp add: isValidPhoneNumber_string phone_format_def phone_body_def trim_def is_space_def
        is_digit_def)
  have v: "validateCallWebhook sample_request
      = Next (sample_request \<lparr> validatedData := Some (U ''alice'', U ''+49 123 456789'') \<rparr>)"
    using ok by (simp add: validateCallWebhook_def sample_request_def trim_def is_space_def)
  have s: "sendToUser gone_transport ?m (U ''alice'') p
      = Inr \<lparr> counts = \<lparr> sent = 0, total = 0 \<rparr>, storage = ?m, deliveries = [] \<rparr>" for p
    by (simp add: sendToUser_def getSubscriptions_def Map_get_def)
  have r: "validateWebhookToken (WEBHOOK_TOKEN empty_env) sample_request = Next sample_request"
    by (simp add: validateWebhookToken_cases tok sample_request_def)
  have p: "createCallPayload (U ''+49 123 456789'')
      (U ''https'' @ U ''://'' @ U ''crm.example'') = Inr sample_payload"
    using createCallPayload_sample by simp
  have h: "call_handler gone_transport ?m
      (sample_request \<lparr> validatedData := Some (U ''alice'', U ''+49 123 456789'') \<rparr>)
      = \<lparr> response =
            \<lparr> status = 200,
              json_body = JObj [(U ''success'', JBool True),
                                (U ''message'', JStr (U ''Push notification sent'')),
                                (U ''userId'', JStr (U ''alice'')),
                                (U ''phoneNumber'', JStr (U ''+49 123 456789'')),
                                (U ''sent'', JNum 0), (U ''total'', JNum 0)] \<rparr>,
          store_after = ?m, dispatcher_calls = [(U ''alice'', sample_payload)] \<rparr>"
    unfolding call_handler_def
    by (simp only: sample_request_def request.simps request_head.simps option.case prod.case
        Let_def truthy.simps option.map if_False p sum.case s)
       simp
  have d: "status (response (?route sample_incoming)) = 200
      \<and> map fst (dispatcher_calls (?route sample_incoming)) = [U ''alice'']"
    by (simp only: post_webhooks_call_def express_json_sample middleware.case never_limited_def
        if_False r v h Let_def) simp
  from w a c d show ?thesis by (intro conjI) simp_all
qed

end
